theory Spec2Isabelle
  imports Main "HOL-Library.Multiset"
begin

section \<open>Errors, time and options\<close>

text \<open>
  The three sentinel errors of \<^verbatim>\<open>errors.go\<close>. \<open>ErrText\<close> is any other error that carries
  only a message (an error of the Redis client, \<^verbatim>\<open>fmt.Errorf\<close> without \<^verbatim>\<open>%w\<close>, an error
  of a user task); \<open>Wrapped\<close> is \<^verbatim>\<open>fmt.Errorf("<prefix>: %w", err)\<close>.
\<close>

datatype error =
    ErrStoreClosed
  | ErrMissingID
  | ErrInvalidWeight
  | ErrText string
  | Wrapped string error

text \<open>
  A \<^verbatim>\<open>time.Time\<close> is the number of nanoseconds since the Unix epoch and a
  \<^verbatim>\<open>time.Duration\<close> a number of nanoseconds. Go's \<^verbatim>\<open>int\<close>, \<^verbatim>\<open>int64\<close> and
  \<^verbatim>\<open>Duration\<close> are modelled by unbounded integers, and so are the numbers of the Lua
  script, which are doubles. The definitions below compute what the code computes as long
  as every operand and every result fits: within 64 bits on the Go side (no wrap-around,
  no saturation of \<^verbatim>\<open>Time.Sub\<close>), and within the integers that the script computes
  with and passes on exactly. The predicates \<open>local_fits\<close>, \<open>redis_fits\<close> and \<open>call_fits\<close> below say when a
  call fits; a statement that depends on the arithmetic assumes them. The wall clock is an
  input of every operation that reads \<^verbatim>\<open>time.Now()\<close>.
\<close>

type_synonym Time = int
type_synonym Duration = int

definition zeroTime :: Time where
  \<comment> \<open>\<^verbatim>\<open>time.Time{}\<close>: January 1, year 1, 00:00:00 UTC\<close>
  "zeroTime = - 62135596800 * 1000000000"

definition IsZero :: "Time \<Rightarrow> bool" where
  "IsZero t = (t = zeroTime)"

definition Sub :: "Time \<Rightarrow> Time \<Rightarrow> Duration" where
  "Sub t u = t - u"

definition Millisecond :: Duration where
  "Millisecond = 1000000"

definition Milliseconds :: "Duration \<Rightarrow> int" where
  \<comment> \<open>\<^verbatim>\<open>int64(d) / 1e6\<close>: Go's division truncates towards zero\<close>
  "Milliseconds d = (if 0 \<le> d then d div 1000000 else - ((- d) div 1000000))"

definition UnixMilli :: "Time \<Rightarrow> int" where
  "UnixMilli t = t div 1000000"

definition in_int64 :: "int \<Rightarrow> bool" where
  \<comment> \<open>a value of Go's \<^verbatim>\<open>int\<close> (on a 64-bit platform), \<^verbatim>\<open>int64\<close> or \<^verbatim>\<open>Duration\<close>\<close>
  "in_int64 x = (- 9223372036854775808 \<le> x \<and> x \<le> 9223372036854775807)"

definition script_exact :: "int \<Rightarrow> bool" where
  \<comment> \<open>an integer of at most 14 digits: the script holds it exactly as a double, and a
      command called from the script, which receives a number written with 14 significant
      digits, receives it unchanged\<close>
  "script_exact x = (- 100000000000000 < x \<and> x < 100000000000000)"

text \<open>
  \<^verbatim>\<open>Options\<close> without its \<^verbatim>\<open>Datastore\<close> field, which no store operation reads
  (the limiter keeps the store it runs on in a field of its own).
\<close>

record Options =
  ID :: string
  MaxConcurrent :: int
  MinTime :: Duration

text \<open>What \<^verbatim>\<open>Request\<close> returns: \<^verbatim>\<open>(canRun, waitTime, err)\<close>.\<close>

type_synonym reply = "bool \<times> Duration \<times> error option"

section \<open>The local store\<close>

record LocalState =
  running :: int
  lastStart :: Time

text \<open>
  \<^verbatim>\<open>state\<close> maps a limiter id to its record; the Go map holds one pointer for each id, so
  an update through the pointer is an update of the map. A nil map is the empty map.
\<close>

record LocalStore =
  state :: "string \<rightharpoonup> LocalState"
  closed :: bool

definition NewLocalStore :: LocalStore where
  "NewLocalStore = \<lparr>state = Map.empty, closed = False\<rparr>"

definition LocalStore_Request ::
  "LocalStore \<Rightarrow> string \<Rightarrow> int \<Rightarrow> Options \<Rightarrow> Time \<Rightarrow> LocalStore \<times> reply" where
  "LocalStore_Request ls limiterID weight opts now =
     (if closed ls then (ls, (False, 0, Some ErrStoreClosed))
      else
        let st = (case state ls limiterID of
                    Some s \<Rightarrow> s
                  | None \<Rightarrow> \<lparr>running = 0, lastStart = zeroTime\<rparr>);
            ls1 = (case state ls limiterID of
                     Some s \<Rightarrow> ls
                   | None \<Rightarrow> ls\<lparr>state := (state ls)(limiterID \<mapsto> st)\<rparr>)
        in
          if MaxConcurrent opts > 0 \<and> running st + weight > MaxConcurrent opts
          then (ls1, (False, 0, None))
          else if MinTime opts > 0 \<and> \<not> IsZero (lastStart st)
                  \<and> Sub now (lastStart st) < MinTime opts
          then (ls1, (False, MinTime opts - Sub now (lastStart st), None))
          else (ls1\<lparr>state := (state ls1)(limiterID \<mapsto>
                        st\<lparr>running := running st + weight, lastStart := now\<rparr>)\<rparr>,
                (True, 0, None)))"

definition LocalStore_RegisterDone ::
  "LocalStore \<Rightarrow> string \<Rightarrow> int \<Rightarrow> LocalStore \<times> error option" where
  "LocalStore_RegisterDone ls limiterID weight =
     (if closed ls then (ls, Some ErrStoreClosed)
      else
        case state ls limiterID of
          None \<Rightarrow> (ls, None)
        | Some st \<Rightarrow>
            let r = running st - weight;
                r' = (if r < 0 then 0 else r)
            in (ls\<lparr>state := (state ls)(limiterID \<mapsto> st\<lparr>running := r'\<rparr>)\<rparr>, None))"

definition LocalStore_Disconnect :: "LocalStore \<Rightarrow> LocalStore \<times> error option" where
  "LocalStore_Disconnect ls = (ls\<lparr>closed := True, state := Map.empty\<rparr>, None)"

text \<open>The per-id values the store accounts, read without creating a record.\<close>

definition local_running :: "LocalStore \<Rightarrow> string \<Rightarrow> int" where
  "local_running ls i = (case state ls i of None \<Rightarrow> 0 | Some st \<Rightarrow> running st)"

definition local_lastStart :: "LocalStore \<Rightarrow> string \<Rightarrow> Time" where
  "local_lastStart ls i = (case state ls i of None \<Rightarrow> zeroTime | Some st \<Rightarrow> lastStart st)"

text \<open>
  When the two calls of the local store fit: the arguments and the stored \<open>running\<close> are
  64-bit values, \<open>running + weight\<close> (or \<open>running - weight\<close>) does not wrap, and, once a
  grant is recorded, neither \<^verbatim>\<open>now.Sub(lastStart)\<close> nor the wait computed from it leaves
  the range of a \<^verbatim>\<open>Duration\<close>.
\<close>

definition local_fits :: "LocalStore \<Rightarrow> string \<Rightarrow> int \<Rightarrow> Options \<Rightarrow> Time \<Rightarrow> bool" where
  "local_fits ls i w opts now =
     (in_int64 w \<and> in_int64 (MaxConcurrent opts) \<and> in_int64 (MinTime opts)
      \<and> in_int64 (local_running ls i) \<and> in_int64 (local_running ls i + w)
      \<and> (IsZero (local_lastStart ls i)
           \<or> (in_int64 (Sub now (local_lastStart ls i))
               \<and> in_int64 (MinTime opts - Sub now (local_lastStart ls i)))))"

definition local_done_fits :: "LocalStore \<Rightarrow> string \<Rightarrow> int \<Rightarrow> bool" where
  "local_done_fits ls i w =
     (in_int64 w \<and> in_int64 (local_running ls i) \<and> in_int64 (local_running ls i - w))"

section \<open>The Redis store\<close>

text \<open>
  The server side: every key holds a hash from field names to integers (the script and
  \<^verbatim>\<open>HINCRBY\<close> only ever store integers), and a key may carry a time to live in
  milliseconds. \<open>reachable\<close> says whether a command of the client gets through, and
  \<open>script_loaded\<close> whether the server knows the admission script under its SHA.
\<close>

record redis_server =
  hashes :: "string \<rightharpoonup> (string \<rightharpoonup> int)"
  pttl :: "string \<rightharpoonup> int"
  reachable :: bool
  script_loaded :: bool

definition HGETALL :: "redis_server \<Rightarrow> string \<Rightarrow> (string \<rightharpoonup> int)" where
  \<comment> \<open>a key that does not exist reads as the empty hash\<close>
  "HGETALL srv key = (case hashes srv key of None \<Rightarrow> Map.empty | Some h \<Rightarrow> h)"

definition HGET_int :: "redis_server \<Rightarrow> string \<Rightarrow> string \<Rightarrow> int" where
  \<comment> \<open>the value of a field, 0 when the field or the key is missing\<close>
  "HGET_int srv key field = (case HGETALL srv key field of None \<Rightarrow> 0 | Some v \<Rightarrow> v)"

definition HINCRBY :: "redis_server \<Rightarrow> string \<Rightarrow> string \<Rightarrow> int \<Rightarrow> redis_server" where
  \<comment> \<open>creates the key and the field when they are missing, counting from 0\<close>
  "HINCRBY srv key field n =
     srv\<lparr>hashes := (hashes srv)(key \<mapsto> (HGETALL srv key)(field \<mapsto> HGET_int srv key field + n))\<rparr>"

definition HSET :: "redis_server \<Rightarrow> string \<Rightarrow> string \<Rightarrow> int \<Rightarrow> redis_server" where
  "HSET srv key field v =
     srv\<lparr>hashes := (hashes srv)(key \<mapsto> (HGETALL srv key)(field \<mapsto> v))\<rparr>"

definition PEXPIRE :: "redis_server \<Rightarrow> string \<Rightarrow> int \<Rightarrow> redis_server" where
  \<comment> \<open>no effect on a key that does not exist\<close>
  "PEXPIRE srv key ms =
     (case hashes srv key of
        None \<Rightarrow> srv
      | Some h \<Rightarrow> srv\<lparr>pttl := (pttl srv)(key \<mapsto> ms)\<rparr>)"

text \<open>
  The passing of \<open>d\<close> milliseconds on the server: a key whose time to live has run out is
  deleted with its hash, the other times to live are shortened. A key without a time to
  live (one created by \<^verbatim>\<open>HINCRBY\<close> alone) stays.
\<close>

definition elapse :: "int \<Rightarrow> redis_server \<Rightarrow> redis_server" where
  "elapse d srv =
     srv\<lparr>hashes := (\<lambda>k. case pttl srv k of
                          None \<Rightarrow> hashes srv k
                        | Some t \<Rightarrow> if t \<le> d then None else hashes srv k),
         pttl := (\<lambda>k. case pttl srv k of
                        None \<Rightarrow> None
                      | Some t \<Rightarrow> if t \<le> d then None else Some (t - d))\<rparr>"

text \<open>
  The Lua script \<^verbatim>\<open>redisScript\<close>, with \<^verbatim>\<open>KEYS[1]\<close> and the four numbers of
  \<^verbatim>\<open>ARGV\<close> as arguments. Its loop over the reply of \<^verbatim>\<open>HGETALL\<close> reads the fields
  \<^verbatim>\<open>running\<close> and \<^verbatim>\<open>last_start\<close>, each 0 when missing.
\<close>

definition redisScript ::
  "redis_server \<Rightarrow> string \<Rightarrow> int \<Rightarrow> int \<Rightarrow> int \<Rightarrow> int \<Rightarrow> redis_server \<times> int list" where
  "redisScript srv key max_concurrent min_time_ms weight current_time_ms =
     (let running_v = HGET_int srv key ''running'';
          last_start = HGET_int srv key ''last_start''
      in
        if max_concurrent > 0 \<and> running_v + weight > max_concurrent then (srv, [0, - 1])
        else
          let elapsed = current_time_ms - last_start
          in
            if min_time_ms > 0 \<and> elapsed < min_time_ms
            then (srv, [0, min_time_ms - elapsed])
            else
              (PEXPIRE (HSET (HINCRBY srv key ''running'' weight)
                             key ''last_start'' current_time_ms) key 30000,
               [1, 0]))"

text \<open>
  The client side. \<open>client\<close> is \<^verbatim>\<open>rs.client != nil\<close>, \<open>ctx_cancelled\<close> says that
  \<^verbatim>\<open>rs.cancelFunc\<close> has run, \<open>close_err\<close> is what \<^verbatim>\<open>rs.client.Close()\<close> will return,
  and \<open>server\<close> is the state of the server the client talks to.
\<close>

record RedisStore =
  client :: bool
  ctx_cancelled :: bool
  close_err :: "error option"
  server :: redis_server

definition medium_ok :: "RedisStore \<Rightarrow> bool" where
  "medium_ok rs = (\<not> ctx_cancelled rs \<and> reachable (server rs))"

definition NewRedisStore :: "redis_server \<Rightarrow> error option \<Rightarrow> error + RedisStore" where
  \<comment> \<open>\<^verbatim>\<open>loadScript\<close>: the script is on the server afterwards, whether it was before or not\<close>
  "NewRedisStore srv cerr =
     (if \<not> reachable srv
      then Inl (Wrapped ''failed to load Lua script'' (ErrText ''redis: unreachable''))
      else Inr \<lparr>client = True, ctx_cancelled = False, close_err = cerr,
                server = srv\<lparr>script_loaded := True\<rparr>\<rparr>)"

definition EvalSha ::
  "RedisStore \<Rightarrow> string \<Rightarrow> int \<Rightarrow> int \<Rightarrow> int \<Rightarrow> int \<Rightarrow> redis_server \<times> (error + int list)" where
  "EvalSha rs key a1 a2 a3 a4 =
     (if \<not> medium_ok rs then (server rs, Inl (ErrText ''redis: unreachable''))
      else if \<not> script_loaded (server rs) then (server rs, Inl (ErrText ''NOSCRIPT''))
      else case redisScript (server rs) key a1 a2 a3 a4 of (srv, r) \<Rightarrow> (srv, Inr r))"

definition redis_key :: "string \<Rightarrow> string" where
  "redis_key limiterID = ''gothrottle:'' @ limiterID"

definition RedisStore_Request ::
  "RedisStore \<Rightarrow> string \<Rightarrow> int \<Rightarrow> Options \<Rightarrow> Time \<Rightarrow> RedisStore \<times> reply" where
  "RedisStore_Request rs limiterID weight opts now =
     (if \<not> client rs then (rs, (False, 0, Some ErrStoreClosed))
      else
        let key = redis_key limiterID;
            currentTimeMs = UnixMilli now
        in
          case EvalSha rs key (MaxConcurrent opts) (Milliseconds (MinTime opts)) weight
                 currentTimeMs of
            (srv, Inl e) \<Rightarrow>
              (rs\<lparr>server := srv\<rparr>, (False, 0, Some (Wrapped ''redis eval error'' e)))
          | (srv, Inr resultSlice) \<Rightarrow>
              if length resultSlice \<noteq> 2
              then (rs\<lparr>server := srv\<rparr>,
                    (False, 0, Some (ErrText ''unexpected redis script result format'')))
              else
                let canRunInt = resultSlice ! 0;
                    waitTimeInt = resultSlice ! 1
                in (rs\<lparr>server := srv\<rparr>,
                    (canRunInt = 1,
                     if waitTimeInt > 0 then waitTimeInt * Millisecond else 0,
                     None)))"

definition RedisStore_RegisterDone ::
  "RedisStore \<Rightarrow> string \<Rightarrow> int \<Rightarrow> RedisStore \<times> error option" where
  "RedisStore_RegisterDone rs limiterID weight =
     (if \<not> client rs then (rs, Some ErrStoreClosed)
      else
        let key = redis_key limiterID
        in
          if \<not> medium_ok rs
          then (rs, Some (Wrapped ''redis hincrby error'' (ErrText ''redis: unreachable'')))
          else (rs\<lparr>server := HINCRBY (server rs) key ''running'' (- weight)\<rparr>, None))"

definition RedisStore_Disconnect :: "RedisStore \<Rightarrow> RedisStore \<times> error option" where
  "RedisStore_Disconnect rs =
     (let rs1 = rs\<lparr>ctx_cancelled := True\<rparr>
      in if client rs1 then (rs1\<lparr>client := False\<rparr>, close_err rs1) else (rs1, None))"

definition redis_running :: "RedisStore \<Rightarrow> string \<Rightarrow> int" where
  "redis_running rs i = HGET_int (server rs) (redis_key i) ''running''"

definition redis_last_start :: "RedisStore \<Rightarrow> string \<Rightarrow> int" where
  "redis_last_start rs i = HGET_int (server rs) (redis_key i) ''last_start''"

text \<open>
  When the two calls of the Redis store fit: the Go arguments are 64-bit values; every
  number the script reads, and every sum and difference it forms, is an integer that the
  script handles exactly; the wait in nanoseconds is a \<^verbatim>\<open>Duration\<close>; and the
  \<^verbatim>\<open>HINCRBY\<close> of a release stays within 64 bits.
\<close>

definition redis_fits :: "RedisStore \<Rightarrow> string \<Rightarrow> int \<Rightarrow> Options \<Rightarrow> Time \<Rightarrow> bool" where
  "redis_fits rs i w opts now =
     (in_int64 w \<and> in_int64 (MaxConcurrent opts) \<and> in_int64 (MinTime opts)
      \<and> script_exact w \<and> script_exact (MaxConcurrent opts) \<and> script_exact (Milliseconds (MinTime opts))
      \<and> script_exact (UnixMilli now)
      \<and> script_exact (redis_running rs i) \<and> script_exact (redis_last_start rs i)
      \<and> script_exact (redis_running rs i + w)
      \<and> script_exact (UnixMilli now - redis_last_start rs i)
      \<and> script_exact (Milliseconds (MinTime opts) - (UnixMilli now - redis_last_start rs i))
      \<and> in_int64 ((Milliseconds (MinTime opts) - (UnixMilli now - redis_last_start rs i))
                    * Millisecond))"

definition redis_done_fits :: "RedisStore \<Rightarrow> string \<Rightarrow> int \<Rightarrow> bool" where
  "redis_done_fits rs i w =
     (in_int64 w \<and> in_int64 (- w) \<and> in_int64 (redis_running rs i)
      \<and> in_int64 (redis_running rs i - w))"

section \<open>The Datastore interface\<close>

text \<open>The two implementations of the interface \<^verbatim>\<open>Datastore\<close>, and its three methods.\<close>

datatype Datastore = Local LocalStore | Redis RedisStore

fun Request :: "Datastore \<Rightarrow> string \<Rightarrow> int \<Rightarrow> Options \<Rightarrow> Time \<Rightarrow> Datastore \<times> reply" where
  "Request (Local ls) i w opts now =
     (case LocalStore_Request ls i w opts now of (ls', r) \<Rightarrow> (Local ls', r))"
| "Request (Redis rs) i w opts now =
     (case RedisStore_Request rs i w opts now of (rs', r) \<Rightarrow> (Redis rs', r))"

fun RegisterDone :: "Datastore \<Rightarrow> string \<Rightarrow> int \<Rightarrow> Datastore \<times> error option" where
  "RegisterDone (Local ls) i w =
     (case LocalStore_RegisterDone ls i w of (ls', e) \<Rightarrow> (Local ls', e))"
| "RegisterDone (Redis rs) i w =
     (case RedisStore_RegisterDone rs i w of (rs', e) \<Rightarrow> (Redis rs', e))"

fun Disconnect :: "Datastore \<Rightarrow> Datastore \<times> error option" where
  "Disconnect (Local ls) = (case LocalStore_Disconnect ls of (ls', e) \<Rightarrow> (Local ls', e))"
| "Disconnect (Redis rs) = (case RedisStore_Disconnect rs of (rs', e) \<Rightarrow> (Redis rs', e))"

fun running_of :: "Datastore \<Rightarrow> string \<Rightarrow> int" where
  "running_of (Local ls) i = local_running ls i"
| "running_of (Redis rs) i = redis_running rs i"

text \<open>Sequences of calls on one store, run in order.\<close>

datatype call = Req string int Options Time | Done string int

datatype outcome = ReqReply reply | DoneReply "error option"

fun do_call :: "Datastore \<Rightarrow> call \<Rightarrow> Datastore \<times> outcome" where
  "do_call ds (Req i w opts now) =
     (case Request ds i w opts now of (ds', r) \<Rightarrow> (ds', ReqReply r))"
| "do_call ds (Done i w) =
     (case RegisterDone ds i w of (ds', e) \<Rightarrow> (ds', DoneReply e))"

fun run_calls :: "Datastore \<Rightarrow> call list \<Rightarrow> Datastore \<times> outcome list" where
  "run_calls ds [] = (ds, [])"
| "run_calls ds (c # cs) =
     (case do_call ds c of (ds1, r) \<Rightarrow>
        (case run_calls ds1 cs of (ds2, rs) \<Rightarrow> (ds2, r # rs)))"

text \<open>What every call answers on a store that has been closed.\<close>

fun closed_outcome :: "call \<Rightarrow> outcome" where
  "closed_outcome (Req i w opts now) = ReqReply (False, 0, Some ErrStoreClosed)"
| "closed_outcome (Done i w) = DoneReply (Some ErrStoreClosed)"

fun call_weight :: "call \<Rightarrow> int" where
  "call_weight (Req i w opts now) = w"
| "call_weight (Done i w) = w"

text \<open>
  Between two calls time may pass on the server, and the connection to it may fail or
  come back. \<open>pass_time\<close> and \<open>set_link\<close> are these steps on a store (the local store has
  nothing that expires and no connection), and \<open>key_survives d ds i\<close> says that the key
  of the id \<open>i\<close> is still there after \<open>d\<close> milliseconds.
\<close>

fun pass_time :: "int \<Rightarrow> Datastore \<Rightarrow> Datastore" where
  "pass_time d (Local ls) = Local ls"
| "pass_time d (Redis rs) = Redis (rs\<lparr>server := elapse d (server rs)\<rparr>)"

fun set_link :: "bool \<Rightarrow> Datastore \<Rightarrow> Datastore" where
  \<comment> \<open>the connection to the server comes up or goes down\<close>
  "set_link b (Local ls) = Local ls"
| "set_link b (Redis rs) = Redis (rs\<lparr>server := (server rs)\<lparr>reachable := b\<rparr>\<rparr>)"

fun key_survives :: "int \<Rightarrow> Datastore \<Rightarrow> string \<Rightarrow> bool" where
  "key_survives d (Local ls) i = True"
| "key_survives d (Redis rs) i =
     (case pttl (server rs) (redis_key i) of None \<Rightarrow> True | Some t \<Rightarrow> d < t)"

fun call_fits :: "Datastore \<Rightarrow> call \<Rightarrow> bool" where
  "call_fits (Local ls) (Req i w opts now) = local_fits ls i w opts now"
| "call_fits (Redis rs) (Req i w opts now) = redis_fits rs i w opts now"
| "call_fits (Local ls) (Done i w) = local_done_fits ls i w"
| "call_fits (Redis rs) (Done i w) = redis_done_fits rs i w"

datatype event = Call call | Elapse int | Link bool

text \<open>
  \<open>settle\<close> runs a sequence of calls, of lapses of time and of changes of the connection,
  and keeps the list of the grants
  that have not been released yet, as pairs of id and weight. A \<^verbatim>\<open>RegisterDone\<close> must
  release one of them and must succeed; otherwise the sequence is refused (\<open>None\<close>). A
  sequence that ends with nothing left to release is one of granted requests with matching
  releases.
\<close>

fun settle ::
  "Datastore \<Rightarrow> event list \<Rightarrow> (string \<times> int) list \<Rightarrow> (Datastore \<times> (string \<times> int) list) option" where
  "settle ds [] out = Some (ds, out)"
| "settle ds (Call (Req i w opts now) # es) out =
     (case Request ds i w opts now of
        (ds', (canRun, wait, err)) \<Rightarrow>
          if canRun then settle ds' es ((i, w) # out) else settle ds' es out)"
| "settle ds (Call (Done i w) # es) out =
     (if (i, w) \<in> set out
      then (case RegisterDone ds i w of
              (ds', None) \<Rightarrow> settle ds' es (remove1 (i, w) out)
            | (ds', Some e) \<Rightarrow> None)
      else None)"
| "settle ds (Elapse d # es) out = settle (pass_time d ds) es out"
| "settle ds (Link b # es) out = settle (set_link b ds) es out"

text \<open>
  \<open>fits_all\<close>: along the sequence every call fits and has a weight that is not negative,
  and no lapse of time is negative. \<open>key_kept i\<close>: along the sequence no lapse of time
  lets the key of the id \<open>i\<close> expire.
\<close>

fun fits_all :: "Datastore \<Rightarrow> event list \<Rightarrow> bool" where
  "fits_all ds [] = True"
| "fits_all ds (Call c # es) =
     (call_fits ds c \<and> 0 \<le> call_weight c \<and> fits_all (fst (do_call ds c)) es)"
| "fits_all ds (Elapse d # es) = (0 \<le> d \<and> fits_all (pass_time d ds) es)"
| "fits_all ds (Link b # es) = fits_all (set_link b ds) es"

fun key_kept :: "string \<Rightarrow> Datastore \<Rightarrow> event list \<Rightarrow> bool" where
  "key_kept i ds [] = True"
| "key_kept i ds (Call c # es) = key_kept i (fst (do_call ds c)) es"
| "key_kept i ds (Elapse d # es) = (key_survives d ds i \<and> key_kept i (pass_time d ds) es)"
| "key_kept i ds (Link b # es) = key_kept i (set_link b ds) es"

text \<open>A server with no key, and the store that \<^verbatim>\<open>NewRedisStore\<close> builds on it.\<close>

definition empty_server :: redis_server where
  "empty_server = \<lparr>hashes = Map.empty, pttl = Map.empty, reachable = True, script_loaded = False\<rparr>"

definition fresh_redis :: RedisStore where
  "fresh_redis = \<lparr>client = True, ctx_cancelled = False, close_err = None,
                   server = empty_server\<lparr>script_loaded := True\<rparr>\<rparr>"

text \<open>Options and a clock reading used to run the stores on concrete inputs.\<close>

definition example_opts :: Options where
  "example_opts = \<lparr>ID = ''x'', MaxConcurrent = 2, MinTime = 100 * Millisecond\<rparr>"

definition example_now :: Time where
  \<comment> \<open>14 November 2023, 22:13:20 UTC\<close>
  "example_now = 1700000000000000000"

text \<open>
  A store is open when its calls go through: the local store is not closed; the Redis store
  has its client, the server answers and knows the script.
\<close>

fun store_open :: "Datastore \<Rightarrow> bool" where
  "store_open (Local ls) = (\<not> closed ls)"
| "store_open (Redis rs) = (client rs \<and> medium_ok rs \<and> script_loaded (server rs))"

fun is_Local :: "Datastore \<Rightarrow> bool" where
  "is_Local (Local ls) = True"
| "is_Local (Redis rs) = False"

text \<open>The total weight of the grants in \<open>out\<close> that were made under the id \<open>i\<close>.\<close>

definition owed :: "string \<Rightarrow> (string \<times> int) list \<Rightarrow> int" where
  "owed i out = sum_list (map snd (filter (\<lambda>p. fst p = i) out))"

section \<open>Jobs and the priority queue\<close>

text \<open>
  A value of type \<^verbatim>\<open>interface{}\<close>, and a task: the function of a job is run at most once
  and is modelled by the pair it returns.
\<close>

datatype any = AnyNil | AnyString string | AnyInt int

type_synonym task = "any \<times> error option"

text \<open>
  The two channels of a job have capacity 1: \<open>None\<close> is the empty buffer, \<open>Some v\<close> the
  buffer that holds \<open>v\<close>.
\<close>

record Job =
  Task :: task
  Priority :: int
  Weight :: int
  resultChan :: "any option"
  errorChan :: "error option"
  index :: int

text \<open>
  Jobs live on the Go heap and the queue holds pointers to them: a pointer is a natural
  number, the heap a function from pointers to jobs, and a \<^verbatim>\<open>PriorityQueue\<close> is the slice
  of pointers together with the heap it points into.
\<close>

type_synonym pqueue = "(nat \<Rightarrow> Job) \<times> nat list"

definition Len :: "pqueue \<Rightarrow> nat" where
  "Len h = length (snd h)"

definition Less :: "pqueue \<Rightarrow> nat \<Rightarrow> nat \<Rightarrow> bool" where
  "Less h i j = (Priority (fst h (snd h ! i)) > Priority (fst h (snd h ! j)))"

definition Swap :: "pqueue \<Rightarrow> nat \<Rightarrow> nat \<Rightarrow> pqueue" where
  "Swap h i j =
     (let m = fst h;
          pq = (snd h)[i := snd h ! j, j := snd h ! i];
          m1 = m(pq ! i := (m (pq ! i))\<lparr>index := int i\<rparr>);
          m2 = m1(pq ! j := (m1 (pq ! j))\<lparr>index := int j\<rparr>)
      in (m2, pq))"

definition Push :: "pqueue \<Rightarrow> nat \<Rightarrow> pqueue" where
  "Push h x =
     (let n = length (snd h)
      in ((fst h)(x := (fst h x)\<lparr>index := int n\<rparr>), snd h @ [x]))"

definition Pop :: "pqueue \<Rightarrow> nat \<times> pqueue" where
  "Pop h =
     (let old = snd h;
          n = length old;
          item = old ! (n - 1)
      in (item, ((fst h)(item := (fst h item)\<lparr>index := - 1\<rparr>), take (n - 1) old)))"

text \<open>
  \<^verbatim>\<open>container/heap\<close> of the Go library: \<^verbatim>\<open>up\<close>, \<^verbatim>\<open>down\<close>, \<^verbatim>\<open>heap.Push\<close> and
  \<^verbatim>\<open>heap.Pop\<close>, on the interface that \<^verbatim>\<open>PriorityQueue\<close> implements.
\<close>

function up :: "pqueue \<Rightarrow> nat \<Rightarrow> pqueue" where
  "up h j =
     (if (j - 1) div 2 = j \<or> \<not> Less h j ((j - 1) div 2) then h
      else up (Swap h ((j - 1) div 2) j) ((j - 1) div 2))"
  by pat_completeness auto
termination
  by (relation "measure snd") auto

declare up.simps [simp del]

function down :: "pqueue \<Rightarrow> nat \<Rightarrow> nat \<Rightarrow> pqueue" where
  "down h i n =
     (if 2 * i + 1 \<ge> n then h
      else if \<not> Less h (if 2 * i + 2 < n \<and> Less h (2 * i + 2) (2 * i + 1)
                          then 2 * i + 2 else 2 * i + 1) i
      then h
      else down (Swap h i (if 2 * i + 2 < n \<and> Less h (2 * i + 2) (2 * i + 1)
                           then 2 * i + 2 else 2 * i + 1))
                (if 2 * i + 2 < n \<and> Less h (2 * i + 2) (2 * i + 1)
                 then 2 * i + 2 else 2 * i + 1) n)"
  by pat_completeness auto
termination
  by (relation "measure (\<lambda>(h, i, n). n - i)") auto

declare down.simps [simp del]

definition heap_Push :: "pqueue \<Rightarrow> nat \<Rightarrow> pqueue" where
  "heap_Push h x = (let h1 = Push h x in up h1 (Len h1 - 1))"

definition heap_Pop :: "pqueue \<Rightarrow> nat \<times> pqueue" where
  "heap_Pop h =
     (let n = Len h - 1;
          h1 = Swap h 0 n;
          h2 = down h1 0 n
      in Pop h2)"

definition NewPriorityQueue :: "nat list" where
  "NewPriorityQueue = []"

definition PushJob :: "pqueue \<Rightarrow> nat \<Rightarrow> pqueue" where
  "PushJob h job = heap_Push h job"

definition PopJob :: "pqueue \<Rightarrow> nat option \<times> pqueue" where
  "PopJob h =
     (if Len h = 0 then (None, h)
      else case heap_Pop h of (job, h') \<Rightarrow> (Some job, h'))"

definition IsEmpty :: "pqueue \<Rightarrow> bool" where
  "IsEmpty h = (Len h = 0)"

text \<open>A job without its \<^verbatim>\<open>index\<close>, the one field the heap operations write.\<close>

definition no_index :: "Job \<Rightarrow> Job" where
  "no_index job = job\<lparr>index := 0\<rparr>"

definition keeps :: "pqueue \<Rightarrow> pqueue \<Rightarrow> bool" where
  \<comment> \<open>the same pointers in the slice, and no job changed but in its index\<close>
  "keeps h h' =
     (length (snd h') = length (snd h) \<and> mset (snd h') = mset (snd h)
      \<and> (\<forall>r. no_index (fst h' r) = no_index (fst h r)))"

lemma keeps_refl: "keeps h h"
  by (simp add: keeps_def)

lemma keeps_trans: "keeps h h1 \<Longrightarrow> keeps h1 h2 \<Longrightarrow> keeps h h2"
  by (simp add: keeps_def)

lemma keeps_Swap:
  assumes "i < length (snd h)" "j < length (snd h)"
  shows "keeps h (Swap h i j)"
  using assms
  by (simp add: keeps_def Swap_def Let_def no_index_def mset_swap)

lemma keeps_up: "j < length (snd h) \<Longrightarrow> keeps h (up h j)"
proof (induction h j rule: up.induct)
  case (1 h j)
  show ?case
  proof (cases "(j - 1) div 2 = j \<or> \<not> Less h j ((j - 1) div 2)")
    case True
    then show ?thesis by (subst up.simps) (simp add: keeps_refl)
  next
    case False
    have p: "(j - 1) div 2 < length (snd h)" using "1.prems" by simp
    have k: "keeps h (Swap h ((j - 1) div 2) j)" by (rule keeps_Swap [OF p "1.prems"])
    then have "(j - 1) div 2 < length (snd (Swap h ((j - 1) div 2) j))"
      using p by (simp add: keeps_def)
    from "1.IH" [OF False this] k have "keeps h (up (Swap h ((j - 1) div 2) j) ((j - 1) div 2))"
      by (rule keeps_trans [rotated])
    with False show ?thesis by (subst up.simps) simp
  qed
qed

lemma keeps_down: "n \<le> length (snd h) \<Longrightarrow> i < n \<Longrightarrow> keeps h (down h i n)"
proof (induction h i n rule: down.induct)
  case (1 h i n)
  let ?j = "if 2 * i + 2 < n \<and> Less h (2 * i + 2) (2 * i + 1) then 2 * i + 2 else 2 * i + 1"
  show ?case
  proof (cases "2 * i + 1 \<ge> n \<or> \<not> Less h ?j i")
    case True
    then show ?thesis by (subst down.simps) (auto simp: keeps_refl)
  next
    case False
    then have c1: "\<not> n \<le> 2 * i + 1" and c2: "\<not> \<not> Less h ?j i" by auto
    have jn: "?j < n" using c1 by auto
    have k: "keeps h (Swap h i ?j)"
      using "1.prems" jn by (intro keeps_Swap) auto
    then have len: "n \<le> length (snd (Swap h i ?j))" using "1.prems" by (simp add: keeps_def)
    from "1.IH" [OF c1 c2 len jn] k have "keeps h (down (Swap h i ?j) ?j n)"
      by (rule keeps_trans [rotated])
    with c1 c2 show ?thesis by (subst down.simps) simp
  qed
qed

lemma keeps_heap_Push:
  "length (snd (heap_Push h x)) = Suc (length (snd h))
   \<and> mset (snd (heap_Push h x)) = mset (snd h) + {#x#}
   \<and> (\<forall>r. no_index (fst (heap_Push h x) r) = no_index (fst h r))"
proof -
  have "keeps (Push h x) (up (Push h x) (Len (Push h x) - 1))"
    by (rule keeps_up) (simp add: Push_def Len_def Let_def)
  then show ?thesis
    by (simp add: heap_Push_def keeps_def Let_def Push_def no_index_def)
qed

lemma heap_Pop_facts:
  assumes "snd h \<noteq> []" and "heap_Pop h = (x, h')"
  shows "length (snd h') = length (snd h) - 1
   \<and> mset (snd h') + {#x#} = mset (snd h)
   \<and> (\<forall>r. no_index (fst h' r) = no_index (fst h r))"
proof -
  let ?n = "Len h - 1"
  let ?h1 = "Swap h 0 ?n"
  let ?h2 = "down ?h1 0 ?n"
  have n: "?n < length (snd h)" using assms(1) by (simp add: Len_def)
  have k1: "keeps h ?h1" using assms(1) n by (intro keeps_Swap) auto
  have k2: "keeps ?h1 ?h2"
  proof (cases "?n = 0")
    case True
    then show ?thesis by (subst down.simps) (simp add: keeps_refl)
  next
    case False
    with k1 n show ?thesis by (intro keeps_down) (auto simp: keeps_def)
  qed
  from k1 k2 have k: "keeps h ?h2" by (rule keeps_trans)
  then have ne: "snd ?h2 \<noteq> []" using assms(1) by (auto simp: keeps_def)
  have p: "Pop ?h2 = (x, h')" using assms(2) by (simp add: heap_Pop_def Let_def)
  have l: "snd ?h2 = butlast (snd ?h2) @ [last (snd ?h2)]" using ne by simp
  from p have x: "x = last (snd ?h2)" and q: "snd h' = butlast (snd ?h2)"
    and m: "fst h' = (fst ?h2)(x := (fst ?h2 x)\<lparr>index := - 1\<rparr>)"
    using ne by (auto simp: Pop_def Let_def last_conv_nth butlast_conv_take)
  have "mset (snd h') + {#x#} = mset (snd ?h2)"
    using l x q by (metis mset.simps(2) mset_append union_mset_add_mset_right add.right_neutral mset.simps(1))
  with k q m show ?thesis
    by (auto simp: keeps_def no_index_def)
qed

lemma PopJob_facts:
  assumes "PopJob h = (r, h')"
  shows "(snd h = [] \<longrightarrow> r = None \<and> h' = h)
   \<and> (snd h \<noteq> [] \<longrightarrow>
        (\<exists>x. r = Some x \<and> length (snd h') = length (snd h) - 1
           \<and> mset (snd h') + {#x#} = mset (snd h)
           \<and> (\<forall>r. no_index (fst h' r) = no_index (fst h r))))"
proof (cases "snd h = []")
  case True
  with assms show ?thesis by (simp add: PopJob_def Len_def)
next
  case False
  obtain x h1 where p: "heap_Pop h = (x, h1)" by (cases "heap_Pop h")
  with assms False have "r = Some x" "h' = h1" by (simp_all add: PopJob_def Len_def)
  with heap_Pop_facts [OF False p] False show ?thesis by simp
qed

section \<open>The limiter\<close>

text \<open>
  The fields of \<^verbatim>\<open>Limiter\<close>: \<open>opts_l\<close> is \<^verbatim>\<open>l.opts\<close>, \<open>queue\<close> and \<open>jobs\<close> are
  the priority queue and the heap its pointers point into, \<open>next_job\<close> the next free
  pointer, \<open>running_l\<close> the flag \<^verbatim>\<open>l.running\<close>, \<open>stopCh_closed\<close> whether
  \<^verbatim>\<open>l.stopCh\<close> has been closed and \<open>scheduler_done\<close> whether the scheduler goroutine
  has returned (the wait group is back at zero). Two fields only record what happened:
  \<open>launched\<close> lists the jobs handed to \<^verbatim>\<open>executeJob\<close>, in order, and \<open>disconnects\<close>
  counts the calls of \<^verbatim>\<open>datastore.Disconnect\<close>.

  Each operation below is one atomic step. The mutex of the limiter serialises the accesses
  to the queue and to the flag; the steps of the scheduler goroutine (\<^verbatim>\<open>processJobs\<close>,
  \<^verbatim>\<open>processRemainingJobs\<close>) run one after the other in that goroutine. Workers that are
  still running a task while \<^verbatim>\<open>Stop\<close> runs touch only the store and the channels of
  their own jobs, which are no longer in the queue; their steps are not interleaved here.
\<close>

record Limiter =
  opts_l :: Options
  datastore :: Datastore
  queue :: "nat list"
  jobs :: "nat \<Rightarrow> Job"
  next_job :: nat
  running_l :: bool
  stopCh_closed :: bool
  scheduler_done :: bool
  launched :: "nat list"
  disconnects :: nat

definition no_job :: Job where
  \<comment> \<open>what the heap holds where no job has been allocated\<close>
  "no_job = \<lparr>Task = (AnyNil, None), Priority = 0, Weight = 0, resultChan = None,
             errorChan = None, index = 0\<rparr>"

definition start :: "Limiter \<Rightarrow> Limiter" where
  "start l = (if running_l l then l else l\<lparr>running_l := True\<rparr>)"

definition NewLimiter :: "Options \<Rightarrow> Datastore option \<Rightarrow> error + Limiter" where
  "NewLimiter opts0 dso =
     (if dso \<noteq> None \<and> ID opts0 = [] then Inl ErrMissingID
      else
        let ds = (case dso of None \<Rightarrow> Local NewLocalStore | Some d \<Rightarrow> d);
            opts1 = (if dso = None \<and> ID opts0 = [] then opts0\<lparr>ID := ''default''\<rparr> else opts0);
            limiter = \<lparr>opts_l = opts1, datastore = ds, queue = NewPriorityQueue,
                       jobs = (\<lambda>r. no_job), next_job = 0, running_l = False,
                       stopCh_closed = False, scheduler_done = False, launched = [],
                       disconnects = 0\<rparr>
        in Inr (start limiter))"

text \<open>
  \<^verbatim>\<open>ScheduleWithOptions\<close> in its two parts: up to the release of the mutex, and the
  \<^verbatim>\<open>select\<close> on the two channels of the job. The \<^verbatim>\<open>select\<close> blocks (\<open>None\<close>) while both
  channels are empty; \<open>pick\<close> is the choice of the runtime when both are ready.
\<close>

datatype submitted = Rejected error | Enqueued nat

definition ScheduleWithOptions_enqueue ::
  "Limiter \<Rightarrow> task \<Rightarrow> int \<Rightarrow> int \<Rightarrow> Limiter \<times> submitted" where
  "ScheduleWithOptions_enqueue l task priority weight =
     (if weight \<le> 0 then (l, Rejected ErrInvalidWeight)
      else
        let job = next_job l;
            l1 = l\<lparr>jobs := (jobs l)(job := \<lparr>Task = task, Priority = priority,
                                             Weight = weight, resultChan = None,
                                             errorChan = None, index = 0\<rparr>),
                   next_job := Suc job\<rparr>
        in
          if \<not> running_l l1 then (l1, Rejected ErrStoreClosed)
          else case PushJob (jobs l1, queue l1) job of
                 (m, q) \<Rightarrow> (l1\<lparr>jobs := m, queue := q\<rparr>, Enqueued job))"

definition ScheduleWithOptions_wait ::
  "bool \<Rightarrow> Limiter \<Rightarrow> nat \<Rightarrow> (Limiter \<times> any \<times> error option) option" where
  "ScheduleWithOptions_wait pick l job =
     (case (resultChan (jobs l job), errorChan (jobs l job)) of
        (None, None) \<Rightarrow> None
      | (Some result, None) \<Rightarrow>
          Some (l\<lparr>jobs := (jobs l)(job := (jobs l job)\<lparr>resultChan := None\<rparr>)\<rparr>, result, None)
      | (None, Some err) \<Rightarrow>
          Some (l\<lparr>jobs := (jobs l)(job := (jobs l job)\<lparr>errorChan := None\<rparr>)\<rparr>,
                AnyNil, Some err)
      | (Some result, Some err) \<Rightarrow>
          if pick
          then Some (l\<lparr>jobs := (jobs l)(job := (jobs l job)\<lparr>resultChan := None\<rparr>)\<rparr>,
                     result, None)
          else Some (l\<lparr>jobs := (jobs l)(job := (jobs l job)\<lparr>errorChan := None\<rparr>)\<rparr>,
                     AnyNil, Some err))"

text \<open>
  A send on the error channel of a job, as in \<^verbatim>\<open>job.errorChan <- err\<close>: it blocks
  (\<open>None\<close>) while the buffer is full.
\<close>

definition send_errorChan :: "Limiter \<Rightarrow> nat \<Rightarrow> error \<Rightarrow> Limiter option" where
  "send_errorChan l job err =
     (case errorChan (jobs l job) of
        None \<Rightarrow> Some (l\<lparr>jobs := (jobs l)(job := (jobs l job)\<lparr>errorChan := Some err\<rparr>)\<rparr>)
      | Some e \<Rightarrow> None)"

text \<open>
  \<^verbatim>\<open>processJobs\<close>, one tick of the scheduler. The sleep after a denial changes no state
  and is left out; a granted job is recorded in \<open>launched\<close>.
\<close>

definition processJobs :: "Limiter \<Rightarrow> Time \<Rightarrow> Limiter option" where
  "processJobs l now =
     (if IsEmpty (jobs l, queue l) \<or> \<not> running_l l then Some l
      else
        case PopJob (jobs l, queue l) of
          (None, h) \<Rightarrow> Some l
        | (Some job, (m, q)) \<Rightarrow>
            let l1 = l\<lparr>jobs := m, queue := q\<rparr>
            in
              (case Request (datastore l1) (ID (opts_l l1)) (Weight (jobs l1 job)) (opts_l l1) now of
                (ds, (canRun, waitTime, err)) \<Rightarrow>
                  let l2 = l1\<lparr>datastore := ds\<rparr>
                  in
                    (case err of
                       Some e \<Rightarrow> send_errorChan l2 job (Wrapped ''datastore error'' e)
                     | None \<Rightarrow>
                         if \<not> canRun
                         then (case PushJob (jobs l2, queue l2) job of
                                 (m', q') \<Rightarrow> Some (l2\<lparr>jobs := m', queue := q'\<rparr>))
                         else Some (l2\<lparr>launched := launched l2 @ [job]\<rparr>))))"

text \<open>
  \<^verbatim>\<open>executeJob\<close>, from the call of the task to the deferred \<^verbatim>\<open>RegisterDone\<close>, whose
  error is dropped. The two sends are non-blocking: on a full buffer nothing is sent.
\<close>

definition executeJob :: "Limiter \<Rightarrow> nat \<Rightarrow> Limiter" where
  "executeJob l job =
     (let j = jobs l job;
          j' = (case snd (Task j) of
                  Some err \<Rightarrow> if errorChan j = None then j\<lparr>errorChan := Some err\<rparr> else j
                | None \<Rightarrow>
                    if resultChan j = None then j\<lparr>resultChan := Some (fst (Task j))\<rparr> else j);
          l1 = l\<lparr>jobs := (jobs l)(job := j')\<rparr>
      in l1\<lparr>datastore := fst (RegisterDone (datastore l1) (ID (opts_l l1)) (Weight j))\<rparr>)"

lemma send_errorChan_queue:
  "send_errorChan l job err = Some l' \<Longrightarrow> queue l' = queue l"
  by (auto simp: send_errorChan_def split: option.splits)

lemma drain_step_smaller:
  assumes "\<not> IsEmpty (jobs l, queue l)"
    and "PopJob (jobs l, queue l) = (Some job, (m, q))"
    and "send_errorChan (l\<lparr>jobs := m, queue := q\<rparr>) job ErrStoreClosed = Some l'"
  shows "length (queue l') < length (queue l)"
proof -
  from PopJob_facts [OF assms(2)] assms(1)
  have "length q = length (queue l) - 1" "queue l \<noteq> []"
    by (auto simp: IsEmpty_def Len_def)
  with send_errorChan_queue [OF assms(3)] show ?thesis by simp
qed

function processRemainingJobs :: "Limiter \<Rightarrow> Limiter option" where
  "processRemainingJobs l =
     (if IsEmpty (jobs l, queue l) then Some l
      else
        case PopJob (jobs l, queue l) of
          (None, h) \<Rightarrow> Some l
        | (Some job, (m, q)) \<Rightarrow>
            (case send_errorChan (l\<lparr>jobs := m, queue := q\<rparr>) job ErrStoreClosed of
               None \<Rightarrow> None
             | Some l' \<Rightarrow> processRemainingJobs l'))"
  by pat_completeness auto
termination
  apply (relation "measure (\<lambda>l. length (queue l))")
   apply simp
  apply (metis drain_step_smaller in_measure)
  done

declare processRemainingJobs.simps [simp del]

text \<open>
  The branch \<^verbatim>\<open>case <-l.stopCh\<close> of the scheduler: drain the queue, then return, which
  releases the wait group.
\<close>

definition scheduler_exit :: "Limiter \<Rightarrow> Limiter option" where
  "scheduler_exit l =
     (case processRemainingJobs l of
        None \<Rightarrow> None
      | Some l' \<Rightarrow> Some (l'\<lparr>scheduler_done := True\<rparr>))"

text \<open>
  \<^verbatim>\<open>Stop\<close>. After the flag is cleared and the channel closed, \<^verbatim>\<open>l.wg.Wait()\<close> returns
  once the scheduler has taken its stop branch; the ticks it may still take before that
  find the flag cleared and do nothing. \<open>None\<close>: the scheduler is blocked and \<^verbatim>\<open>Stop\<close>
  does not return.
\<close>

definition Stop :: "Limiter \<Rightarrow> (Limiter \<times> error option) option" where
  "Stop l =
     (if \<not> running_l l then Some (l, None)
      else
        case scheduler_exit (l\<lparr>running_l := False, stopCh_closed := True\<rparr>) of
          None \<Rightarrow> None
        | Some l2 \<Rightarrow>
            (case Disconnect (datastore l2) of
               (ds, err) \<Rightarrow>
                 Some (l2\<lparr>datastore := ds, disconnects := Suc (disconnects l2)\<rparr>, err)))"

fun repeat_Stop :: "nat \<Rightarrow> Limiter \<Rightarrow> (Limiter \<times> error option list) option" where
  "repeat_Stop 0 l = Some (l, [])"
| "repeat_Stop (Suc n) l =
     (case Stop l of
        None \<Rightarrow> None
      | Some (l', e) \<Rightarrow>
          (case repeat_Stop n l' of
             None \<Rightarrow> None
           | Some (l'', es) \<Rightarrow> Some (l'', e # es)))"

text \<open>
  The queue of a limiter is ready when it holds each job once, every queued job has been
  allocated and its error channel is empty.
\<close>

definition queue_ready :: "Limiter \<Rightarrow> bool" where
  "queue_ready l =
     (distinct (queue l)
      \<and> (\<forall>j \<in> set (queue l). j < next_job l \<and> errorChan (jobs l j) = None))"

definition example_limiter :: Limiter where
  "example_limiter =
     \<lparr>opts_l = example_opts, datastore = Local NewLocalStore, queue = [],
      jobs = (\<lambda>r. no_job), next_job = 0, running_l = True, stopCh_closed = False,
      scheduler_done = False, launched = [], disconnects = 0\<rparr>"

definition example_queued :: Limiter where
  \<comment> \<open>\<open>example_limiter\<close> after two submissions, of priorities 5 and 7\<close>
  "example_queued =
     example_limiter
       \<lparr>queue := [1, 0],
        jobs := (\<lambda>r. no_job)
          (0 := \<lparr>Task = (AnyInt 7, None), Priority = 5, Weight = 1, resultChan = None,
                 errorChan = None, index = 1\<rparr>,
           1 := \<lparr>Task = (AnyNil, Some (ErrText ''failed'')), Priority = 7, Weight = 1,
                 resultChan = None, errorChan = None, index = 0\<rparr>),
        next_job := 2\<rparr>"

section \<open>Properties of the stores\<close>

subsection \<open>Reading the Redis hashes\<close>

lemma HGET_int_HINCRBY:
  "HGET_int (HINCRBY srv k f n) k' f' =
     (if k' = k \<and> f' = f then HGET_int srv k f + n else HGET_int srv k' f')"
  by (simp add: HGET_int_def HINCRBY_def HGETALL_def)

lemma HGET_int_HSET:
  "HGET_int (HSET srv k f v) k' f' = (if k' = k \<and> f' = f then v else HGET_int srv k' f')"
  by (simp add: HGET_int_def HSET_def HGETALL_def)

lemma HGET_int_PEXPIRE: "HGET_int (PEXPIRE srv k ms) k' f' = HGET_int srv k' f'"
  by (simp add: HGET_int_def PEXPIRE_def HGETALL_def split: option.splits)

lemma pttl_grant:
  "pttl (PEXPIRE (HSET (HINCRBY srv k f n) k f' v) k ms) k = Some ms"
  by (simp add: PEXPIRE_def HSET_def HINCRBY_def)

lemma flags_HINCRBY:
  "reachable (HINCRBY srv k f n) = reachable srv"
  "script_loaded (HINCRBY srv k f n) = script_loaded srv"
  by (simp_all add: HINCRBY_def)

lemma flags_grant:
  "reachable (PEXPIRE (HSET (HINCRBY srv k f n) k f' v) k ms) = reachable srv"
  "script_loaded (PEXPIRE (HSET (HINCRBY srv k f n) k f' v) k ms) = script_loaded srv"
  by (simp_all add: PEXPIRE_def HSET_def HINCRBY_def split: option.splits)

lemma HGET_int_fresh: "HGET_int (server fresh_redis) k f = 0"
  by (simp add: HGET_int_def HGETALL_def fresh_redis_def empty_server_def)

lemma flags_fresh:
  "client fresh_redis" "\<not> ctx_cancelled fresh_redis" "reachable (server fresh_redis)"
  "script_loaded (server fresh_redis)"
  by (simp_all add: fresh_redis_def empty_server_def)

lemma NewRedisStore_fresh: "NewRedisStore empty_server None = Inr fresh_redis"
  by (simp add: NewRedisStore_def empty_server_def fresh_redis_def)

lemma redisScript_cases:
  "redisScript srv key maxc mint w t =
     (if maxc > 0 \<and> HGET_int srv key ''running'' + w > maxc then (srv, [0, - 1])
      else if mint > 0 \<and> t - HGET_int srv key ''last_start'' < mint
      then (srv, [0, mint - (t - HGET_int srv key ''last_start'')])
      else (PEXPIRE (HSET (HINCRBY srv key ''running'' w) key ''last_start'' t) key 30000,
            [1, 0]))"
  by (simp add: redisScript_def Let_def)

lemma RedisStore_Request_open:
  assumes "client rs" "medium_ok rs" "script_loaded (server rs)"
  shows "RedisStore_Request rs i w opts now =
     (case redisScript (server rs) (redis_key i) (MaxConcurrent opts)
              (Milliseconds (MinTime opts)) w (UnixMilli now) of
        (srv, r) \<Rightarrow>
          (rs\<lparr>server := srv\<rparr>,
           (r ! 0 = 1, if r ! 1 > 0 then r ! 1 * Millisecond else 0, None)))"
  using assms
  by (simp add: RedisStore_Request_def EvalSha_def redisScript_cases Let_def)

subsection \<open>The admission gate\<close>

lemma local_gate_cases:
  assumes "\<not> closed ls" "zeroTime + MinTime opts \<le> now"
    and "LocalStore_Request ls i w opts now = (ls', rep)"
  shows
    "(if MaxConcurrent opts > 0 \<and> local_running ls i + w > MaxConcurrent opts
      then rep = (False, 0, None)
           \<and> local_running ls' i = local_running ls i
           \<and> local_lastStart ls' i = local_lastStart ls i
      else if MinTime opts > 0 \<and> now - local_lastStart ls i < MinTime opts
      then rep = (False, MinTime opts - (now - local_lastStart ls i), None) \<and> ls' = ls
      else rep = (True, 0, None)
           \<and> local_running ls' i = local_running ls i + w
           \<and> local_lastStart ls' i = now)"
  using assms
  by (auto simp: LocalStore_Request_def local_running_def local_lastStart_def Let_def
      IsZero_def Sub_def split: if_splits option.splits)

lemma redis_gate_cases:
  assumes "client rs" "medium_ok rs" "script_loaded (server rs)"
    and "RedisStore_Request rs i w opts now = (rs', rep)"
  shows
    "(if MaxConcurrent opts > 0 \<and> redis_running rs i + w > MaxConcurrent opts
      then rep = (False, 0, None) \<and> rs' = rs
      else if Milliseconds (MinTime opts) > 0
              \<and> UnixMilli now - redis_last_start rs i < Milliseconds (MinTime opts)
      then rep = (False,
                  (Milliseconds (MinTime opts) - (UnixMilli now - redis_last_start rs i))
                    * Millisecond, None)
           \<and> rs' = rs
      else rep = (True, 0, None)
           \<and> redis_running rs' i = redis_running rs i + w
           \<and> redis_last_start rs' i = UnixMilli now)"
  using assms(4) RedisStore_Request_open [OF assms(1-3), of i w opts now]
  by (auto simp: redisScript_cases redis_running_def redis_last_start_def
      HGET_int_HINCRBY HGET_int_HSET HGET_int_PEXPIRE Millisecond_def split: if_splits)

text \<open>
  C1, as the code has it. On a store that is open (the local store not closed; the Redis
  store with its client, a server that answers and the script loaded), called when the
  wall clock is at least \<open>MinTime\<close> past Go's zero time (any real clock is: \<open>MinTime\<close> is
  at most 292 years) and with numbers that fit (\<open>local_fits\<close>, \<open>redis_fits\<close>: no 64-bit
  overflow in \<open>running + weight\<close> or in the durations, and exact numbers in the script),
  \<^verbatim>\<open>Request(id, weight, opts)\<close> does the following. If \<open>MaxConcurrent > 0\<close> and
  \<open>running(id) + weight > MaxConcurrent\<close>, it returns \<open>(false, 0, nil)\<close> and leaves
  \<open>running(id)\<close> and \<open>lastStart(id)\<close> as they were. Otherwise, if \<open>MinTime > 0\<close> and
  \<open>now - lastStart(id) < MinTime\<close>, it returns \<open>(false, MinTime - (now - lastStart(id)), nil)\<close>
  and leaves the store unchanged. Otherwise it returns \<open>(true, 0, nil)\<close>, adds \<open>weight\<close>
  to \<open>running(id)\<close> and sets \<open>lastStart(id)\<close> to \<open>now\<close>. The Redis store measures
  \<open>MinTime\<close>, \<open>now\<close> and \<open>lastStart\<close> in whole milliseconds (\<open>MinTime\<close> truncated, \<open>now\<close>
  since the Unix epoch), and the wait it returns is that number of milliseconds.
\<close>

theorem Request_contract:
  "(\<not> closed ls \<and> zeroTime + MinTime opts \<le> now \<and> local_fits ls i w opts now \<longrightarrow>
      (case LocalStore_Request ls i w opts now of
         (ls', rep) \<Rightarrow>
           if MaxConcurrent opts > 0 \<and> local_running ls i + w > MaxConcurrent opts
           then rep = (False, 0, None)
                \<and> local_running ls' i = local_running ls i
                \<and> local_lastStart ls' i = local_lastStart ls i
           else if MinTime opts > 0 \<and> now - local_lastStart ls i < MinTime opts
           then rep = (False, MinTime opts - (now - local_lastStart ls i), None) \<and> ls' = ls
           else rep = (True, 0, None)
                \<and> local_running ls' i = local_running ls i + w
                \<and> local_lastStart ls' i = now))
   \<and>
   (client rs \<and> medium_ok rs \<and> script_loaded (server rs) \<and> redis_fits rs i w opts now \<longrightarrow>
      (case RedisStore_Request rs i w opts now of
         (rs', rep) \<Rightarrow>
           if MaxConcurrent opts > 0 \<and> redis_running rs i + w > MaxConcurrent opts
           then rep = (False, 0, None) \<and> rs' = rs
           else if Milliseconds (MinTime opts) > 0
                   \<and> UnixMilli now - redis_last_start rs i < Milliseconds (MinTime opts)
           then rep = (False,
                       (Milliseconds (MinTime opts) - (UnixMilli now - redis_last_start rs i))
                         * Millisecond, None)
                \<and> rs' = rs
           else rep = (True, 0, None)
                \<and> redis_running rs' i = redis_running rs i + w
                \<and> redis_last_start rs' i = UnixMilli now))"
proof (cases "LocalStore_Request ls i w opts now"; cases "RedisStore_Request rs i w opts now")
  fix ls' rep rs' rep'
  assume L: "LocalStore_Request ls i w opts now = (ls', rep)"
    and R: "RedisStore_Request rs i w opts now = (rs', rep')"
  show ?thesis
    unfolding L R prod.case
    using local_gate_cases [OF _ _ L] redis_gate_cases [OF _ _ _ R]
    by blast
qed

theorem Request_contract_witness:
  "(\<not> closed NewLocalStore \<and> zeroTime + MinTime example_opts \<le> example_now
      \<and> local_fits NewLocalStore ''x'' 1 example_opts example_now)
   \<and> LocalStore_Request NewLocalStore ''x'' 1 example_opts example_now
       = (\<lparr>state = [''x'' \<mapsto> \<lparr>running = 1, lastStart = example_now\<rparr>], closed = False\<rparr>,
          (True, 0, None))
   \<and> (client fresh_redis \<and> medium_ok fresh_redis \<and> script_loaded (server fresh_redis)
        \<and> redis_fits fresh_redis ''x'' 1 example_opts example_now)
   \<and> snd (RedisStore_Request fresh_redis ''x'' 1 example_opts example_now) = (True, 0, None)
   \<and> redis_running (fst (RedisStore_Request fresh_redis ''x'' 1 example_opts example_now)) ''x''
       = 1
   \<and> redis_last_start (fst (RedisStore_Request fresh_redis ''x'' 1 example_opts example_now))
        ''x'' = 1700000000000"
  using Request_contract [of NewLocalStore example_opts example_now "''x''" 1 fresh_redis]
  by (simp add: NewLocalStore_def example_opts_def example_now_def zeroTime_def
      Millisecond_def fresh_redis_def empty_server_def medium_ok_def local_running_def
      local_lastStart_def redis_running_def redis_last_start_def HGET_int_def HGETALL_def
      Milliseconds_def UnixMilli_def LocalStore_Request_def IsZero_def local_fits_def
      redis_fits_def in_int64_def script_exact_def split: prod.splits)

text \<open>
  Where C1 as worded fails. A closed local store answers \<^verbatim>\<open>ErrStoreClosed\<close>, not one of
  the three replies with a nil error. On the Redis store a \<open>MinTime\<close> of half a
  millisecond is passed to the script as 0 and disables the spacing gate: two requests at
  the same instant are both granted.
\<close>

theorem Request_contract_counterexample:
  "LocalStore_Request (fst (LocalStore_Disconnect NewLocalStore)) ''x'' 1
       \<lparr>ID = ''x'', MaxConcurrent = 0, MinTime = 0\<rparr> 1700000000000000000
     = (fst (LocalStore_Disconnect NewLocalStore), (False, 0, Some ErrStoreClosed))
   \<and> snd (RedisStore_Request fresh_redis ''x'' 1
         \<lparr>ID = ''x'', MaxConcurrent = 0, MinTime = 500000\<rparr> 1700000000000000000)
       = (True, 0, None)
   \<and> UnixMilli 1700000000000000000
         - redis_last_start (fst (RedisStore_Request fresh_redis ''x'' 1
             \<lparr>ID = ''x'', MaxConcurrent = 0, MinTime = 500000\<rparr> 1700000000000000000)) ''x'' = 0
   \<and> snd (RedisStore_Request
            (fst (RedisStore_Request fresh_redis ''x'' 1
               \<lparr>ID = ''x'', MaxConcurrent = 0, MinTime = 500000\<rparr> 1700000000000000000))
            ''x'' 1 \<lparr>ID = ''x'', MaxConcurrent = 0, MinTime = 500000\<rparr> 1700000000000000000)
       = (True, 0, None)"
  by (simp add: LocalStore_Request_def LocalStore_Disconnect_def NewLocalStore_def
      RedisStore_Request_def EvalSha_def redisScript_cases medium_ok_def fresh_redis_def
      empty_server_def Milliseconds_def UnixMilli_def redis_last_start_def
      HGET_int_HINCRBY HGET_int_HSET HGET_int_PEXPIRE flags_grant Let_def)

subsection \<open>Completion accounting\<close>

lemma local_RegisterDone_contract:
  assumes "\<not> closed ls" and "LocalStore_RegisterDone ls i w = (ls', e)"
  shows "e = None
    \<and> (case state ls i of
          None \<Rightarrow> ls' = ls
        | Some st \<Rightarrow> local_running ls' i = max 0 (running st - w) \<and> \<not> closed ls'
                     \<and> local_lastStart ls' i = lastStart st)"
  using assms
  by (auto simp: LocalStore_RegisterDone_def local_running_def local_lastStart_def Let_def
      split: option.splits if_splits)

text \<open>
  C2 on the Redis store: \<^verbatim>\<open>RegisterDone("x", 1)\<close> on a server that holds no key for
  \<^verbatim>\<open>x\<close> returns nil, creates the key and leaves its \<^verbatim>\<open>running\<close> field at -1. The local
  store (\<open>local_RegisterDone_contract\<close>) clamps at zero and does nothing without a record.
\<close>

theorem RedisStore_RegisterDone_no_clamp:
  "hashes (server fresh_redis) (redis_key ''x'') = None
   \<and> redis_running fresh_redis ''x'' = 0
   \<and> snd (RedisStore_RegisterDone fresh_redis ''x'' 1) = None
   \<and> redis_running (fst (RedisStore_RegisterDone fresh_redis ''x'' 1)) ''x'' = - 1
   \<and> hashes (server (fst (RedisStore_RegisterDone fresh_redis ''x'' 1))) (redis_key ''x'') \<noteq> None"
  by (simp add: RedisStore_RegisterDone_def medium_ok_def fresh_redis_def empty_server_def
      redis_running_def HGET_int_HINCRBY Let_def)
    (simp add: HGET_int_def HGETALL_def HINCRBY_def)

text \<open>
  C3 on the Redis store: from the initial state, a \<^verbatim>\<open>RegisterDone\<close> takes \<open>running\<close> to
  -1, and with \<open>MaxConcurrent = 1\<close> the next two requests of weight 1 are both granted.
\<close>

theorem Redis_running_goes_negative:
  "running_of (fst (run_calls (Redis fresh_redis) [Done ''x'' 1])) ''x'' = - 1
   \<and> snd (run_calls (Redis fresh_redis)
      [Done ''x'' 1,
       Req ''x'' 1 \<lparr>ID = ''x'', MaxConcurrent = 1, MinTime = 0\<rparr> 1700000000000000000,
       Req ''x'' 1 \<lparr>ID = ''x'', MaxConcurrent = 1, MinTime = 0\<rparr> 1700000000000000000])
     = [DoneReply None, ReqReply (True, 0, None), ReqReply (True, 0, None)]"
  by (simp add: RedisStore_RegisterDone_def RedisStore_Request_def EvalSha_def
      redisScript_cases medium_ok_def Milliseconds_def UnixMilli_def redis_running_def
      HGET_int_HINCRBY HGET_int_HSET HGET_int_PEXPIRE flags_grant flags_HINCRBY
      HGET_int_fresh flags_fresh Let_def)

subsection \<open>The remote script\<close>



subsection \<open>Grant and release\<close>

lemma redis_key_inj: "(redis_key j = redis_key i) = (j = i)"
  by (simp add: redis_key_def)

lemma Request_granted:
  assumes "Request ds i w opts now = (ds', (True, wait, err))"
  shows "store_open ds \<and> store_open ds' \<and> err = None \<and> wait = 0
    \<and> running_of ds' j = (if j = i then running_of ds i + w else running_of ds j)"
proof (cases ds)
  case (Local ls)
  with assms show ?thesis
    by (auto simp: LocalStore_Request_def local_running_def Let_def
        split: if_splits option.splits)
next
  case (Redis rs)
  with assms show ?thesis
    by (auto simp: RedisStore_Request_def EvalSha_def redisScript_cases medium_ok_def
        redis_running_def redis_key_inj HGET_int_HINCRBY HGET_int_HSET HGET_int_PEXPIRE
        flags_grant Let_def split: if_splits)
qed

lemma Request_denied:
  assumes "Request ds i w opts now = (ds', (False, wait, err))"
  shows "running_of ds' j = running_of ds j \<and> store_open ds' = store_open ds"
proof (cases ds)
  case (Local ls)
  with assms show ?thesis
    by (auto simp: LocalStore_Request_def local_running_def Let_def
        split: if_splits option.splits)
next
  case (Redis rs)
  with assms show ?thesis
    by (auto simp: RedisStore_Request_def EvalSha_def redisScript_cases medium_ok_def
        redis_running_def Let_def split: if_splits)
qed

lemma RegisterDone_open:
  assumes "store_open ds" and "RegisterDone ds i w = (ds', e)"
  shows "e = None \<and> store_open ds'
    \<and> (j \<noteq> i \<longrightarrow> running_of ds' j = running_of ds j)
    \<and> (0 \<le> w \<and> w \<le> running_of ds i \<longrightarrow> running_of ds' i = running_of ds i - w)"
proof (cases ds)
  case (Local ls)
  with assms show ?thesis
    by (auto simp: LocalStore_RegisterDone_def local_running_def Let_def
        split: if_splits option.splits)
next
  case (Redis rs)
  with assms show ?thesis
    by (auto simp: RedisStore_RegisterDone_def medium_ok_def redis_running_def
        redis_key_inj HGET_int_HINCRBY flags_HINCRBY Let_def split: if_splits)
qed

lemma owed_Cons: "owed i ((j, w) # out) = (if j = i then w + owed i out else owed i out)"
  by (simp add: owed_def)

lemma owed_nonneg: "\<forall>p \<in> set out. 0 \<le> snd p \<Longrightarrow> 0 \<le> owed i out"
  by (induction out) (auto simp: owed_def)

lemma owed_remove1:
  "(j, w) \<in> set out \<Longrightarrow>
     owed i (remove1 (j, w) out) = (if j = i then owed i out - w else owed i out)"
  by (induction out) (auto simp: owed_def)

lemma HGET_int_elapse:
  "HGET_int (elapse d srv) k f =
     (case pttl srv k of
        None \<Rightarrow> HGET_int srv k f
      | Some t \<Rightarrow> if t \<le> d then 0 else HGET_int srv k f)"
  by (simp add: HGET_int_def HGETALL_def elapse_def split: option.splits)

lemma pttl_elapse:
  "pttl (elapse d srv) k =
     (case pttl srv k of None \<Rightarrow> None | Some t \<Rightarrow> if t \<le> d then None else Some (t - d))"
  by (simp add: elapse_def)

lemma flags_elapse:
  "reachable (elapse d srv) = reachable srv"
  "script_loaded (elapse d srv) = script_loaded srv"
  by (simp_all add: elapse_def)

lemma HGET_int_link: "HGET_int (srv\<lparr>reachable := b\<rparr>) k f = HGET_int srv k f"
  by (simp add: HGET_int_def HGETALL_def)

lemma pttl_link: "pttl (srv\<lparr>reachable := b\<rparr>) k = pttl srv k"
  by simp

lemma pass_time_kept:
  "key_survives d ds i \<Longrightarrow> running_of (pass_time d ds) i = running_of ds i"
  by (cases ds) (simp_all add: redis_running_def HGET_int_elapse split: option.splits)

lemma set_link_kept: "running_of (set_link b ds) i = running_of ds i"
  by (cases ds) (simp_all add: redis_running_def HGET_int_def HGETALL_def)

lemma RegisterDone_ok:
  assumes "RegisterDone ds i w = (ds', None)"
  shows "(j \<noteq> i \<longrightarrow> running_of ds' j = running_of ds j)
    \<and> (0 \<le> w \<and> w \<le> running_of ds i \<longrightarrow> running_of ds' i = running_of ds i - w)"
proof (cases ds)
  case (Local ls)
  with assms show ?thesis
    by (auto simp: LocalStore_RegisterDone_def local_running_def Let_def
        split: if_splits option.splits)
next
  case (Redis rs)
  with assms show ?thesis
    by (auto simp: RedisStore_RegisterDone_def redis_running_def
        redis_key_inj HGET_int_HINCRBY Let_def split: if_splits)
qed

lemma settle_running:
  assumes "settle ds es out = Some (ds', out')"
    and "fits_all ds es" "key_kept i ds es" "\<forall>p \<in> set out. 0 \<le> snd p"
    and "0 \<le> b" "running_of ds i = b + owed i out"
  shows "running_of ds' i = b + owed i out'"
  using assms
proof (induction es arbitrary: ds out)
  case Nil
  then show ?case by simp
next
  case (Cons ev es)
  show ?case
  proof (cases ev)
    case (Elapse d)
    with Cons.prems have s: "settle (pass_time d ds) es out = Some (ds', out')"
      and f: "fits_all (pass_time d ds) es" and k: "key_kept i (pass_time d ds) es"
      and sv: "key_survives d ds i"
      by simp_all
    from pass_time_kept [OF sv] Cons.prems(6)
    have "running_of (pass_time d ds) i = b + owed i out"
      by simp
    from Cons.IH [OF s f k Cons.prems(4,5) this] show ?thesis .
  next
    case (Link lk)
    with Cons.prems have s: "settle (set_link lk ds) es out = Some (ds', out')"
      and f: "fits_all (set_link lk ds) es" and k: "key_kept i (set_link lk ds) es"
      by simp_all
    from set_link_kept [of lk ds i] Cons.prems(6)
    have "running_of (set_link lk ds) i = b + owed i out"
      by simp
    from Cons.IH [OF s f k Cons.prems(4,5) this] show ?thesis .
  next
    case (Call c)
    show ?thesis
    proof (cases c)
      case (Req j w opts now)
      obtain ds1 canRun wait err where
        r: "Request ds j w opts now = (ds1, (canRun, wait, err))"
        by (metis prod_cases3)
      from Cons.prems(2,3) Call Req r
      have f: "fits_all ds1 es" and k: "key_kept i ds1 es" and w0: "0 \<le> w"
        by simp_all
      show ?thesis
      proof (cases canRun)
        case True
        with r Cons.prems(1) Call Req
        have s: "settle ds1 es ((j, w) # out) = Some (ds', out')"
          by simp
        from r True have r': "Request ds j w opts now = (ds1, (True, wait, err))" by simp
        from Request_granted [OF r', of i] Cons.prems(6)
        have ru: "running_of ds1 i = b + owed i ((j, w) # out)"
          by (auto simp: owed_Cons)
        from Cons.prems(4) w0 have nn: "\<forall>p \<in> set ((j, w) # out). 0 \<le> snd p" by simp
        from Cons.IH [OF s f k nn Cons.prems(5) ru] show ?thesis .
      next
        case False
        with r Cons.prems(1) Call Req have s: "settle ds1 es out = Some (ds', out')"
          by simp
        from r False have r': "Request ds j w opts now = (ds1, (False, wait, err))" by simp
        from Request_denied [OF r', of i] Cons.prems(6)
        have ru: "running_of ds1 i = b + owed i out" by auto
        from Cons.IH [OF s f k Cons.prems(4,5) ru] show ?thesis .
      qed
    next
      case (Done j w)
      with Cons.prems(1) Call have mem: "(j, w) \<in> set out"
        by (auto split: if_splits)
      obtain ds1 e where r: "RegisterDone ds j w = (ds1, e)"
        by (cases "RegisterDone ds j w")
      from Cons.prems(1) Call Done mem r have e: "e = None"
        by (cases e) simp_all
      from Cons.prems(2,3) Call Done r
      have f: "fits_all ds1 es" and k: "key_kept i ds1 es" and w0: "0 \<le> w"
        by simp_all
      from Cons.prems(1) Call Done mem r e
      have s: "settle ds1 es (remove1 (j, w) out) = Some (ds', out')"
        by simp
      from r e have r': "RegisterDone ds j w = (ds1, None)" by simp
      have nn: "\<forall>p \<in> set (remove1 (j, w) out). 0 \<le> snd p"
        using Cons.prems(4) by (meson notin_set_remove1)
      have ru: "running_of ds1 i = b + owed i (remove1 (j, w) out)"
      proof (cases "j = i")
        case True
        have "0 \<le> owed i (remove1 (j, w) out)" using nn by (rule owed_nonneg)
        with owed_remove1 [OF mem, of i] True have "w \<le> owed i out" by simp
        with Cons.prems(5,6) have "w \<le> running_of ds i" by simp
        with RegisterDone_ok [OF r', of i] w0 True
        have "running_of ds1 i = running_of ds i - w" by simp
        with owed_remove1 [OF mem, of i] True Cons.prems(6) show ?thesis by simp
      next
        case False
        with RegisterDone_ok [OF r', of i] owed_remove1 [OF mem, of i] Cons.prems(6)
        show ?thesis by simp
      qed
      from Cons.IH [OF s f k nn Cons.prems(5) ru] show ?thesis .
    qed
  qed
qed

text \<open>
  C5, as the code has it. Take a store in which \<open>running(id) \<ge> 0\<close>, a
  \<^verbatim>\<open>Request(id, w, opts)\<close> that is granted, then any sequence of further requests, of
  releases, of lapses of time and of changes of the connection in which every
  \<^verbatim>\<open>RegisterDone\<close> releases a grant made earlier in the sequence and no grant of the
  sequence is left unreleased, then a \<^verbatim>\<open>RegisterDone(id, w)\<close> that returns nil. If no
  weight is negative, every call fits (no 64-bit overflow, exact numbers in the script)
  and, on the Redis store, no lapse of time lets the key of the id expire, then
  \<open>running(id)\<close> is what it was before the first request. The calls of the sequence may
  use any ids, options and clock readings.
\<close>

theorem grant_then_done_restores_running:
  assumes "0 \<le> running_of ds i" and "0 \<le> w"
    and "call_fits ds (Req i w opts now)"
    and "Request ds i w opts now = (ds1, (True, wait, err))"
    and "settle ds1 es [] = Some (ds2, [])"
    and "fits_all ds1 es" and "key_kept i ds1 es"
    and "call_fits ds2 (Done i w)"
    and "RegisterDone ds2 i w = (ds3, None)"
  shows "running_of ds3 i = running_of ds i"
proof -
  from Request_granted [OF assms(4), of i]
  have r1: "running_of ds1 i = running_of ds i + w"
    by auto
  have r1': "running_of ds1 i = (running_of ds i + w) + owed i []"
    using r1 by (simp add: owed_def)
  have b: "0 \<le> running_of ds i + w" using assms(1,2) by simp
  from settle_running [OF assms(5,6,7) _ b r1']
  have r2: "running_of ds2 i = running_of ds i + w"
    by (simp add: owed_def)
  from RegisterDone_ok [OF assms(9), of i] r2 assms(1,2) show ?thesis by simp
qed

theorem grant_then_done_restores_running_witness:
  "(0 \<le> running_of (Local NewLocalStore) ''x''
    \<and> call_fits (Local NewLocalStore) (Req ''x'' 1 \<lparr>ID = ''x'', MaxConcurrent = 2, MinTime = 0\<rparr> 7)
    \<and> Request (Local NewLocalStore) ''x'' 1 \<lparr>ID = ''x'', MaxConcurrent = 2, MinTime = 0\<rparr> 7
        = (Local \<lparr>state = [''x'' \<mapsto> \<lparr>running = 1, lastStart = 7\<rparr>], closed = False\<rparr>,
           (True, 0, None))
    \<and> settle (Local \<lparr>state = [''x'' \<mapsto> \<lparr>running = 1, lastStart = 7\<rparr>], closed = False\<rparr>)
         [Call (Req ''x'' 1 \<lparr>ID = ''x'', MaxConcurrent = 2, MinTime = 0\<rparr> 8), Elapse 40000,
          Call (Done ''x'' 1)] []
        = Some (Local \<lparr>state = [''x'' \<mapsto> \<lparr>running = 1, lastStart = 8\<rparr>], closed = False\<rparr>, [])
    \<and> RegisterDone
          (Local \<lparr>state = [''x'' \<mapsto> \<lparr>running = 1, lastStart = 8\<rparr>], closed = False\<rparr>) ''x'' 1
        = (Local \<lparr>state = [''x'' \<mapsto> \<lparr>running = 0, lastStart = 8\<rparr>], closed = False\<rparr>, None)
    \<and> running_of
          (Local \<lparr>state = [''x'' \<mapsto> \<lparr>running = 0, lastStart = 8\<rparr>], closed = False\<rparr>) ''x''
        = 0)
   \<and> (0 \<le> running_of (Redis fresh_redis) ''x''
       \<and> call_fits (Redis fresh_redis) (Req ''x'' 1 example_opts example_now)
       \<and> snd (Request (Redis fresh_redis) ''x'' 1 example_opts example_now) = (True, 0, None)
       \<and> map_option snd (settle (fst (Request (Redis fresh_redis) ''x'' 1 example_opts example_now))
            [Elapse 1000,
             Call (Req ''x'' 1 example_opts (example_now + 1000 * Millisecond)),
             Link False, Elapse 29000, Link True, Call (Done ''x'' 1)] []) = Some []
       \<and> snd (RegisterDone
            (fst (the (settle (fst (Request (Redis fresh_redis) ''x'' 1 example_opts example_now))
               [Elapse 1000,
                Call (Req ''x'' 1 example_opts (example_now + 1000 * Millisecond)),
                Link False, Elapse 29000, Link True, Call (Done ''x'' 1)] [])))
            ''x'' 1) = None
       \<and> running_of (fst (RegisterDone
            (fst (the (settle (fst (Request (Redis fresh_redis) ''x'' 1 example_opts example_now))
               [Elapse 1000,
                Call (Req ''x'' 1 example_opts (example_now + 1000 * Millisecond)),
                Link False, Elapse 29000, Link True, Call (Done ''x'' 1)] [])))
            ''x'' 1)) ''x'' = 0)"
proof -
  let ?o = "\<lparr>ID = ''x'', MaxConcurrent = 2, MinTime = 0\<rparr>"
  let ?l1 = "Local \<lparr>state = [''x'' \<mapsto> \<lparr>running = 1, lastStart = 7\<rparr>], closed = False\<rparr>"
  let ?l2 = "Local \<lparr>state = [''x'' \<mapsto> \<lparr>running = 1, lastStart = 8\<rparr>], closed = False\<rparr>"
  let ?l3 = "Local \<lparr>state = [''x'' \<mapsto> \<lparr>running = 0, lastStart = 8\<rparr>], closed = False\<rparr>"
  let ?le = "[Call (Req ''x'' 1 ?o 8), Elapse 40000, Call (Done ''x'' 1)]"
  have h1: "0 \<le> running_of (Local NewLocalStore) ''x''"
    by (simp add: local_running_def NewLocalStore_def)
  have h3: "call_fits (Local NewLocalStore) (Req ''x'' 1 ?o 7)"
    by (simp add: local_fits_def in_int64_def local_running_def local_lastStart_def
        NewLocalStore_def IsZero_def)
  have h4: "Request (Local NewLocalStore) ''x'' 1 ?o 7 = (?l1, (True, 0, None))"
    by (simp add: LocalStore_Request_def NewLocalStore_def)
  have h5: "settle ?l1 ?le [] = Some (?l2, [])"
    by (simp add: LocalStore_Request_def LocalStore_RegisterDone_def)
  have h6: "fits_all ?l1 ?le"
    by (simp add: local_fits_def local_done_fits_def in_int64_def local_running_def
        local_lastStart_def IsZero_def zeroTime_def Sub_def LocalStore_Request_def)
  have h7: "key_kept ''x'' ?l1 ?le"
    by (simp add: LocalStore_Request_def)
  have h8: "call_fits ?l2 (Done ''x'' 1)"
    by (simp add: local_done_fits_def in_int64_def local_running_def)
  have h9: "RegisterDone ?l2 ''x'' 1 = (?l3, None)"
    by (simp add: LocalStore_RegisterDone_def)
  have l0: "running_of (Local NewLocalStore) ''x'' = 0"
    by (simp add: local_running_def NewLocalStore_def)
  from grant_then_done_restores_running [OF h1 _ h3 h4 h5 h6 h7 h8 h9]
  have "running_of ?l3 ''x'' = running_of (Local NewLocalStore) ''x''"
    by simp
  then have Lc: "running_of ?l3 ''x'' = 0"
    by (simp only: l0)
  let ?t2 = "example_now + 1000 * Millisecond"
  let ?r1 = "fst (Request (Redis fresh_redis) ''x'' 1 example_opts example_now)"
  let ?re = "[Elapse 1000, Call (Req ''x'' 1 example_opts ?t2), Link False, Elapse 29000,
              Link True, Call (Done ''x'' 1)]"
  let ?r2 = "fst (the (settle ?r1 ?re []))"
  let ?r3 = "fst (RegisterDone ?r2 ''x'' 1)"
  note ev = RedisStore_Request_def RedisStore_RegisterDone_def EvalSha_def redisScript_cases
    medium_ok_def Milliseconds_def UnixMilli_def Millisecond_def redis_running_def
    redis_last_start_def HGET_int_HINCRBY HGET_int_HSET HGET_int_PEXPIRE HGET_int_elapse
    pttl_elapse pttl_grant flags_grant flags_HINCRBY flags_elapse HGET_int_fresh flags_fresh
    example_opts_def example_now_def redis_fits_def redis_done_fits_def in_int64_def
    script_exact_def HGET_int_link pttl_link Let_def
  have g1: "0 \<le> running_of (Redis fresh_redis) ''x''"
    by (simp add: ev)
  have g3: "call_fits (Redis fresh_redis) (Req ''x'' 1 example_opts example_now)"
    by (simp add: ev)
  have g4: "Request (Redis fresh_redis) ''x'' 1 example_opts example_now = (?r1, (True, 0, None))"
    by (simp add: ev)
  have g5': "map_option snd (settle ?r1 ?re []) = Some []"
    by (simp add: ev)
  then have g5: "settle ?r1 ?re [] = Some (?r2, [])"
    by (cases "settle ?r1 ?re []") auto
  have g6: "fits_all ?r1 ?re"
    by (simp add: ev)
  have g7: "key_kept ''x'' ?r1 ?re"
    by (simp add: ev)
  have g8: "call_fits ?r2 (Done ''x'' 1)"
    by (simp add: ev)
  have g9': "snd (RegisterDone ?r2 ''x'' 1) = None"
    by (simp add: ev)
  then have g9: "RegisterDone ?r2 ''x'' 1 = (?r3, None)"
    by (cases "RegisterDone ?r2 ''x'' 1") auto
  have r0: "running_of (Redis fresh_redis) ''x'' = 0"
    by (simp add: redis_running_def HGET_int_fresh)
  from grant_then_done_restores_running [OF g1 _ g3 g4 g5 g6 g7 g8 g9]
  have "running_of ?r3 ''x'' = running_of (Redis fresh_redis) ''x''"
    by simp
  then have Rc: "running_of ?r3 ''x'' = 0"
    by (simp only: r0)
  have g4s: "snd (Request (Redis fresh_redis) ''x'' 1 example_opts example_now) = (True, 0, None)"
    by (subst g4) simp
  from h1 h3 h4 h5 h9 Lc g1 g3 g4s g5' g9' Rc show ?thesis
    by blast
qed

text \<open>
  Where C5 as worded fails. On the Redis store the key expires 30000 ms after the last
  grant: a release that comes 31000 ms after the grant finds no key and leaves \<open>running\<close>
  at -1 instead of 0. A release that does not reach the server returns an error and
  leaves \<open>running\<close> at 1. On the local store, which does not check the sign of a weight,
  a grant of weight -3 from \<open>running = 1\<close>, then a matched grant and release of weight 1
  (the release is clamped at 0), then the release of -3 end with \<open>running = 3\<close>.
\<close>

theorem grant_then_done_restores_running_counterexample:
  "running_of (Redis fresh_redis) ''x'' = 0
   \<and> snd (Request (Redis fresh_redis) ''x'' 1 example_opts example_now) = (True, 0, None)
   \<and> snd (RegisterDone (pass_time 31000
         (fst (Request (Redis fresh_redis) ''x'' 1 example_opts example_now))) ''x'' 1) = None
   \<and> running_of (fst (RegisterDone (pass_time 31000
         (fst (Request (Redis fresh_redis) ''x'' 1 example_opts example_now))) ''x'' 1)) ''x''
       = - 1
   \<and> snd (RegisterDone (set_link False
         (fst (Request (Redis fresh_redis) ''x'' 1 example_opts example_now))) ''x'' 1)
       = Some (Wrapped ''redis hincrby error'' (ErrText ''redis: unreachable''))
   \<and> running_of (fst (RegisterDone (set_link False
         (fst (Request (Redis fresh_redis) ''x'' 1 example_opts example_now))) ''x'' 1)) ''x''
       = 1
   \<and> running_of (Local \<lparr>state = [''x'' \<mapsto> \<lparr>running = 1, lastStart = 7\<rparr>], closed = False\<rparr>)
        ''x'' = 1
   \<and> Request (Local \<lparr>state = [''x'' \<mapsto> \<lparr>running = 1, lastStart = 7\<rparr>], closed = False\<rparr>)
        ''x'' (- 3) \<lparr>ID = ''x'', MaxConcurrent = 0, MinTime = 0\<rparr> 8
       = (Local \<lparr>state = [''x'' \<mapsto> \<lparr>running = - 2, lastStart = 8\<rparr>], closed = False\<rparr>,
          (True, 0, None))
   \<and> settle (Local \<lparr>state = [''x'' \<mapsto> \<lparr>running = - 2, lastStart = 8\<rparr>], closed = False\<rparr>)
        [Call (Req ''x'' 1 \<lparr>ID = ''x'', MaxConcurrent = 0, MinTime = 0\<rparr> 9),
         Call (Done ''x'' 1)] []
       = Some (Local \<lparr>state = [''x'' \<mapsto> \<lparr>running = 0, lastStart = 9\<rparr>], closed = False\<rparr>, [])
   \<and> RegisterDone (Local \<lparr>state = [''x'' \<mapsto> \<lparr>running = 0, lastStart = 9\<rparr>], closed = False\<rparr>)
        ''x'' (- 3)
       = (Local \<lparr>state = [''x'' \<mapsto> \<lparr>running = 3, lastStart = 9\<rparr>], closed = False\<rparr>, None)"
  by (simp add: RedisStore_Request_def RedisStore_RegisterDone_def EvalSha_def
      redisScript_cases medium_ok_def Milliseconds_def UnixMilli_def Millisecond_def
      redis_running_def HGET_int_HINCRBY HGET_int_HSET HGET_int_PEXPIRE HGET_int_elapse
      pttl_elapse pttl_grant flags_grant flags_HINCRBY flags_elapse HGET_int_fresh flags_fresh
      example_opts_def example_now_def Let_def local_running_def LocalStore_Request_def
      LocalStore_RegisterDone_def HGET_int_link)

subsection \<open>Bounds on the running weight\<close>

text \<open>
  In the model, a grant never takes \<open>running\<close> above a positive \<open>MaxConcurrent\<close>, on either
  store, and the local store keeps \<open>running\<close> non-negative along every sequence of calls
  with non-negative weights. This is what the code does as long as the calls fit: a sum
  \<open>running + weight\<close> beyond 64 bits wraps to a negative number in the code.
\<close>

lemma granted_within_cap:
  assumes "Request ds i w opts now = (ds', (True, wait, err))" and "0 < MaxConcurrent opts"
  shows "running_of ds' i \<le> MaxConcurrent opts"
proof (cases ds)
  case (Local ls)
  with assms show ?thesis
    by (auto simp: LocalStore_Request_def local_running_def Let_def
        split: if_splits option.splits)
next
  case (Redis rs)
  with assms show ?thesis
    by (auto simp: RedisStore_Request_def EvalSha_def redisScript_cases medium_ok_def
        redis_running_def HGET_int_HINCRBY HGET_int_HSET HGET_int_PEXPIRE
        Let_def split: if_splits)
qed

lemma local_step_nonneg:
  assumes "is_Local ds" "\<forall>i. 0 \<le> running_of ds i" "0 \<le> call_weight c"
    and "do_call ds c = (ds', r)"
  shows "is_Local ds' \<and> (\<forall>i. 0 \<le> running_of ds' i)"
proof -
  from assms(1) obtain ls where l: "ds = Local ls" by (cases ds) auto
  show ?thesis
  proof (cases c)
    case (Req j w opts now)
    with assms l show ?thesis
      by (auto simp: LocalStore_Request_def local_running_def Let_def
          split: if_splits option.splits)
  next
    case (Done j w)
    with assms l show ?thesis
      by (auto simp: LocalStore_RegisterDone_def local_running_def Let_def
          split: if_splits option.splits)
  qed
qed

lemma local_running_nonneg:
  assumes "is_Local ds" "\<forall>i. 0 \<le> running_of ds i" "\<forall>c \<in> set cs. 0 \<le> call_weight c"
  shows "\<forall>i. 0 \<le> running_of (fst (run_calls ds cs)) i"
  using assms
proof (induction cs arbitrary: ds)
  case Nil
  then show ?case by simp
next
  case (Cons c cs)
  obtain ds1 r where d: "do_call ds c = (ds1, r)" by (cases "do_call ds c")
  from local_step_nonneg [OF Cons.prems(1,2) _ d] Cons.prems(3)
  have "is_Local ds1" "\<forall>i. 0 \<le> running_of ds1 i" by auto
  from Cons.IH [OF this] Cons.prems(3) d show ?case
    by (auto split: prod.splits)
qed

subsection \<open>Closed stores\<close>

text \<open>
  C6. Once \<^verbatim>\<open>Disconnect\<close> has returned, on the local and on the Redis store, every later
  \<^verbatim>\<open>Request\<close> and every later \<^verbatim>\<open>RegisterDone\<close> returns \<^verbatim>\<open>ErrStoreClosed\<close>; no request
  is granted and the store stays as \<^verbatim>\<open>Disconnect\<close> left it.
\<close>

theorem after_Disconnect_StoreClosed:
  "run_calls (fst (Disconnect ds)) cs = (fst (Disconnect ds), map closed_outcome cs)"
proof (induction cs)
  case Nil
  show ?case by simp
next
  case (Cons c cs)
  have "do_call (fst (Disconnect ds)) c = (fst (Disconnect ds), closed_outcome c)"
    by (cases ds; cases c)
      (simp_all add: LocalStore_Disconnect_def LocalStore_Request_def
        LocalStore_RegisterDone_def RedisStore_Disconnect_def RedisStore_Request_def
        RedisStore_RegisterDone_def Let_def)
  with Cons show ?case by simp
qed

subsection \<open>The first request under an id\<close>

text \<open>
  C10. While no grant is recorded for an id (its \<open>lastStart\<close> is the zero time), a denial
  of \<^verbatim>\<open>LocalStore.Request\<close> with a nil error is a concurrency denial, whatever \<open>MinTime\<close>
  is: \<open>MaxConcurrent > 0\<close>, \<open>running + weight > MaxConcurrent\<close> and the wait is 0.
\<close>

theorem first_request_never_spacing_denied:
  assumes "IsZero (local_lastStart ls i)"
    and "LocalStore_Request ls i w opts now = (ls', (False, wait, None))"
  shows "MaxConcurrent opts > 0 \<and> local_running ls i + w > MaxConcurrent opts \<and> wait = 0"
  using assms
  by (auto simp: LocalStore_Request_def local_lastStart_def local_running_def Let_def
      split: if_splits option.splits)

theorem first_request_never_spacing_denied_witness:
  "IsZero (local_lastStart NewLocalStore ''a'')
   \<and> LocalStore_Request NewLocalStore ''a'' 3 \<lparr>ID = ''a'', MaxConcurrent = 2, MinTime = 100\<rparr> 5
       = (\<lparr>state = [''a'' \<mapsto> \<lparr>running = 0, lastStart = zeroTime\<rparr>], closed = False\<rparr>,
          (False, 0, None))
   \<and> local_running NewLocalStore ''a'' + 3 > (2 :: int)"
proof -
  have z: "IsZero (local_lastStart NewLocalStore ''a'')"
    by (simp add: IsZero_def local_lastStart_def NewLocalStore_def)
  have r: "LocalStore_Request NewLocalStore ''a'' 3 \<lparr>ID = ''a'', MaxConcurrent = 2, MinTime = 100\<rparr> 5
     = (\<lparr>state = [''a'' \<mapsto> \<lparr>running = 0, lastStart = zeroTime\<rparr>], closed = False\<rparr>,
        (False, 0, None))"
    by (simp add: LocalStore_Request_def NewLocalStore_def)
  from first_request_never_spacing_denied [OF z r] z r show ?thesis by simp
qed

section \<open>Properties of the limiter\<close>

lemma errorChan_no_index: "errorChan (no_index j) = errorChan j"
  and resultChan_no_index: "resultChan (no_index j) = resultChan j"
  by (simp_all add: no_index_def)

lemma no_index_eqD:
  assumes "no_index a = no_index b"
  shows "errorChan a = errorChan b" "resultChan a = resultChan b" "Task a = Task b"
    "Priority a = Priority b" "Weight a = Weight b"
  using assms by (simp_all add: no_index_def Job.ext_inject Job.update_convs Job.defs)
    (cases a; cases b; simp)+

lemma processJobs_stopped: "\<not> running_l l \<Longrightarrow> processJobs l now = Some l"
  by (simp add: processJobs_def)

lemma drain_keeps_fields:
  "processRemainingJobs l = Some l' \<Longrightarrow> l'\<lparr>jobs := jobs l, queue := queue l\<rparr> = l"
proof (induction l rule: processRemainingJobs.induct)
  case (1 l)
  show ?case
  proof (cases "IsEmpty (jobs l, queue l)")
    case True
    with "1.prems" show ?thesis by (simp add: processRemainingJobs.simps [of l])
  next
    case False
    obtain r m q where p: "PopJob (jobs l, queue l) = (r, (m, q))"
      by (metis prod_cases3)
    show ?thesis
    proof (cases r)
      case None
      with "1.prems" False p show ?thesis by (simp add: processRemainingJobs.simps [of l])
    next
      case (Some job)
      from "1.prems" False p Some obtain l1 where
        s: "send_errorChan (l\<lparr>jobs := m, queue := q\<rparr>) job ErrStoreClosed = Some l1"
        and r: "processRemainingJobs l1 = Some l'"
        by (auto simp: processRemainingJobs.simps [of l] split: option.splits)
      from "1.IH" [OF False p [symmetric] Some refl s r]
      have "l'\<lparr>jobs := jobs l1, queue := queue l1\<rparr> = l1" by simp
      then have "(l'\<lparr>jobs := jobs l1, queue := queue l1\<rparr>)\<lparr>jobs := jobs l, queue := queue l\<rparr>
          = l1\<lparr>jobs := jobs l, queue := queue l\<rparr>" by simp
      moreover from s have "l1\<lparr>jobs := jobs l, queue := queue l\<rparr> = l"
        by (auto simp: send_errorChan_def split: option.splits)
      ultimately show ?thesis by simp
    qed
  qed
qed

lemma drain_all:
  assumes "distinct (queue l)" "\<forall>j \<in> set (queue l). errorChan (jobs l j) = None"
  shows "\<exists>l'. processRemainingJobs l = Some l' \<and> queue l' = []
     \<and> (\<forall>j. no_index (jobs l' j) =
            (if j \<in> set (queue l) then (no_index (jobs l j))\<lparr>errorChan := Some ErrStoreClosed\<rparr>
             else no_index (jobs l j)))"
  using assms
proof (induction n \<equiv> "length (queue l)" arbitrary: l)
  case 0
  then show ?case
    by (simp add: processRemainingJobs.simps [of l] IsEmpty_def Len_def)
next
  case (Suc n)
  then have ne: "queue l \<noteq> []" by auto
  obtain r m q where p: "PopJob (jobs l, queue l) = (r, (m, q))"
    by (metis prod_cases3)
  from PopJob_facts [OF p] ne obtain x where x: "r = Some x"
    and len: "length q = length (queue l) - 1"
    and ms: "mset q + {#x#} = mset (queue l)"
    and ni: "\<forall>r. no_index (m r) = no_index (jobs l r)"
    by auto
  from ms have ms': "mset (q @ [x]) = mset (queue l)" by simp
  from mset_eq_imp_distinct_iff [OF ms'] Suc.prems(1) have d: "distinct q" "x \<notin> set q"
    by auto
  from mset_eq_setD [OF ms'] have st: "set (queue l) = insert x (set q)" by auto
  have ec: "\<And>j. errorChan (m j) = errorChan (jobs l j)"
    using ni no_index_eqD(1) by blast
  let ?l1 = "l\<lparr>jobs := m(x := (m x)\<lparr>errorChan := Some ErrStoreClosed\<rparr>), queue := q\<rparr>"
  have s: "send_errorChan (l\<lparr>jobs := m, queue := q\<rparr>) x ErrStoreClosed = Some ?l1"
    using Suc.prems(2) st ec by (simp add: send_errorChan_def)
  have step: "processRemainingJobs l = processRemainingJobs ?l1"
    using ne p x s
    by (simp add: processRemainingJobs.simps [of l] IsEmpty_def Len_def)
  have "n = length (queue ?l1)" using Suc.hyps(2) len by simp
  moreover have "distinct (queue ?l1)" using d by simp
  moreover have "\<forall>j \<in> set (queue ?l1). errorChan (jobs ?l1 j) = None"
    using d Suc.prems(2) st ec by auto
  ultimately obtain l' where l': "processRemainingJobs ?l1 = Some l'" "queue l' = []"
    and j': "\<forall>j. no_index (jobs l' j) =
            (if j \<in> set (queue ?l1)
             then (no_index (jobs ?l1 j))\<lparr>errorChan := Some ErrStoreClosed\<rparr>
             else no_index (jobs ?l1 j))"
    using Suc.hyps(1) [of ?l1] by blast
  have "\<forall>j. no_index (jobs l' j) =
            (if j \<in> set (queue l) then (no_index (jobs l j))\<lparr>errorChan := Some ErrStoreClosed\<rparr>
             else no_index (jobs l j))"
  proof
    fix j
    show "no_index (jobs l' j) =
            (if j \<in> set (queue l) then (no_index (jobs l j))\<lparr>errorChan := Some ErrStoreClosed\<rparr>
             else no_index (jobs l j))"
    proof (cases "j = x")
      case True
      with j' d have "no_index (jobs l' j) = no_index ((m x)\<lparr>errorChan := Some ErrStoreClosed\<rparr>)"
        by simp
      also have "\<dots> = (no_index (m x))\<lparr>errorChan := Some ErrStoreClosed\<rparr>"
        by (simp add: no_index_def)
      finally show ?thesis using ni st True by simp
    next
      case False
      with j' ni st show ?thesis by simp
    qed
  qed
  with step l' show ?case by simp
qed

lemma Request_after_Disconnect:
  "Request (fst (Disconnect ds)) i w opts now
     = (fst (Disconnect ds), (False, 0, Some ErrStoreClosed))"
  by (cases ds)
    (simp_all add: LocalStore_Disconnect_def LocalStore_Request_def RedisStore_Disconnect_def
      RedisStore_Request_def Let_def)

lemma enqueue_cases:
  "ScheduleWithOptions_enqueue l task priority weight =
     (if weight \<le> 0 then (l, Rejected ErrInvalidWeight)
      else if \<not> running_l l
      then (l\<lparr>jobs := (jobs l)(next_job l := \<lparr>Task = task, Priority = priority,
                    Weight = weight, resultChan = None, errorChan = None, index = 0\<rparr>),
              next_job := Suc (next_job l)\<rparr>, Rejected ErrStoreClosed)
      else
        (l\<lparr>jobs := fst (heap_Push ((jobs l)(next_job l := \<lparr>Task = task,
                    Priority = priority, Weight = weight, resultChan = None,
                    errorChan = None, index = 0\<rparr>), queue l) (next_job l)),
            queue := snd (heap_Push ((jobs l)(next_job l := \<lparr>Task = task,
                    Priority = priority, Weight = weight, resultChan = None,
                    errorChan = None, index = 0\<rparr>), queue l) (next_job l)),
            next_job := Suc (next_job l)\<rparr>, Enqueued (next_job l)))"
  by (simp add: ScheduleWithOptions_enqueue_def Let_def PushJob_def split: prod.splits)

lemma no_index_new_job:
  "no_index (fst (heap_Push (m(x := \<lparr>Task = task, Priority = priority, Weight = weight,
        resultChan = None, errorChan = None, index = 0\<rparr>), q) x) x)
     = \<lparr>Task = task, Priority = priority, Weight = weight, resultChan = None,
        errorChan = None, index = 0\<rparr>"
  using keeps_heap_Push [of "(m(x := \<lparr>Task = task, Priority = priority, Weight = weight,
        resultChan = None, errorChan = None, index = 0\<rparr>), q)" x]
  by (simp add: no_index_def)

text \<open>
  The limiters used as concrete inputs are states the program reaches: \<open>example_limiter\<close>
  is what \<^verbatim>\<open>NewLimiter\<close> returns, \<open>example_queued\<close> is \<open>example_limiter\<close> after two
  submissions.
\<close>

lemma NewLimiter_example: "NewLimiter example_opts None = Inr example_limiter"
  by (simp add: NewLimiter_def example_limiter_def example_opts_def start_def
      NewPriorityQueue_def Let_def)

lemma example_queued_reached:
  "fst (ScheduleWithOptions_enqueue
         (fst (ScheduleWithOptions_enqueue example_limiter (AnyInt 7, None) 5 1))
         (AnyNil, Some (ErrText ''failed'')) 7 1) = example_queued"
  by (simp add: enqueue_cases example_limiter_def example_queued_def heap_Push_def Push_def
      Len_def Let_def up.simps [of _ 0] up.simps [of _ "Suc 0"] Less_def Swap_def no_job_def
      fun_upd_twist)

text \<open>
  C7. \<^verbatim>\<open>ScheduleWithOptions(task, priority, weight)\<close> returns \<^verbatim>\<open>ErrInvalidWeight\<close>
  before it enqueues anything exactly when \<open>weight \<le> 0\<close>, and the limiter is then
  unchanged. With \<open>weight > 0\<close> on a stopped limiter it returns \<^verbatim>\<open>ErrStoreClosed\<close> and
  the queue is unchanged. Otherwise the new job, with this task, priority and weight and
  with empty channels, is added to the queue. The wait that follows blocks exactly while
  both channels of the job are empty, and what it returns is what was delivered: the value
  on the result channel with a nil error, or a nil value with the error on the error
  channel.
\<close>

theorem ScheduleWithOptions_contract:
  "(case ScheduleWithOptions_enqueue l task priority weight of
      (l', r) \<Rightarrow>
        (r = Rejected ErrInvalidWeight) = (weight \<le> 0)
        \<and> (weight \<le> 0 \<longrightarrow> l' = l)
        \<and> (0 < weight \<and> \<not> running_l l \<longrightarrow>
              r = Rejected ErrStoreClosed \<and> queue l' = queue l)
        \<and> (0 < weight \<and> running_l l \<longrightarrow>
              r = Enqueued (next_job l)
              \<and> mset (queue l') = mset (queue l) + {#next_job l#}
              \<and> no_index (jobs l' (next_job l))
                  = \<lparr>Task = task, Priority = priority, Weight = weight, resultChan = None,
                     errorChan = None, index = 0\<rparr>))
   \<and> ((ScheduleWithOptions_wait pick l2 job = None)
        = (resultChan (jobs l2 job) = None \<and> errorChan (jobs l2 job) = None))
   \<and> (\<forall>l3 v e. ScheduleWithOptions_wait pick l2 job = Some (l3, v, e) \<longrightarrow>
         (e = None \<and> resultChan (jobs l2 job) = Some v)
         \<or> (v = AnyNil \<and> e \<noteq> None \<and> errorChan (jobs l2 job) = e))"
proof -
  have a: "case ScheduleWithOptions_enqueue l task priority weight of
      (l', r) \<Rightarrow>
        (r = Rejected ErrInvalidWeight) = (weight \<le> 0)
        \<and> (weight \<le> 0 \<longrightarrow> l' = l)
        \<and> (0 < weight \<and> \<not> running_l l \<longrightarrow>
              r = Rejected ErrStoreClosed \<and> queue l' = queue l)
        \<and> (0 < weight \<and> running_l l \<longrightarrow>
              r = Enqueued (next_job l)
              \<and> mset (queue l') = mset (queue l) + {#next_job l#}
              \<and> no_index (jobs l' (next_job l))
                  = \<lparr>Task = task, Priority = priority, Weight = weight, resultChan = None,
                     errorChan = None, index = 0\<rparr>)"
    using keeps_heap_Push [of "((jobs l)(next_job l := \<lparr>Task = task,
                    Priority = priority, Weight = weight, resultChan = None,
                    errorChan = None, index = 0\<rparr>), queue l)" "next_job l"]
    by (simp add: enqueue_cases no_index_new_job)
  have b: "(ScheduleWithOptions_wait pick l2 job = None)
        = (resultChan (jobs l2 job) = None \<and> errorChan (jobs l2 job) = None)"
    by (simp add: ScheduleWithOptions_wait_def split: option.splits)
  have c: "\<forall>l3 v e. ScheduleWithOptions_wait pick l2 job = Some (l3, v, e) \<longrightarrow>
         (e = None \<and> resultChan (jobs l2 job) = Some v)
         \<or> (v = AnyNil \<and> e \<noteq> None \<and> errorChan (jobs l2 job) = e)"
    by (auto simp: ScheduleWithOptions_wait_def split: option.splits if_splits)
  from a b c show ?thesis by blast
qed

lemma executeJob_delivers:
  assumes "resultChan (jobs l job) = None" "errorChan (jobs l job) = None"
  shows "\<exists>l'. ScheduleWithOptions_wait pick (executeJob l job) job
     = Some (l', case snd (Task (jobs l job)) of
                   None \<Rightarrow> (fst (Task (jobs l job)), None)
                 | Some err \<Rightarrow> (AnyNil, Some err))"
  using assms
  by (simp add: executeJob_def ScheduleWithOptions_wait_def Let_def split: option.splits)

text \<open>
  C8. Let \<^verbatim>\<open>Stop\<close> be called on a running limiter whose queue holds each job once, with
  an empty error channel. Then \<^verbatim>\<open>Stop\<close> returns; every job that was in the queue has
  \<^verbatim>\<open>ErrStoreClosed\<close> on its error channel and nothing on its result channel that was not
  there before; no job has been handed to \<^verbatim>\<open>executeJob\<close>, so no task of a drained job
  is run; the queue is empty. Afterwards nothing is granted: \<^verbatim>\<open>processJobs\<close> does
  nothing, every submission is rejected and leaves the queue empty, and every
  \<^verbatim>\<open>Request\<close> on the store of the limiter returns \<^verbatim>\<open>ErrStoreClosed\<close>.
\<close>

theorem Stop_drains_queue:
  assumes "running_l l" "distinct (queue l)"
    and "\<forall>j \<in> set (queue l). errorChan (jobs l j) = None"
  shows "\<exists>l' err. Stop l = Some (l', err)
     \<and> (\<forall>j \<in> set (queue l). errorChan (jobs l' j) = Some ErrStoreClosed
                             \<and> resultChan (jobs l' j) = resultChan (jobs l j))
     \<and> launched l' = launched l
     \<and> queue l' = []
     \<and> \<not> running_l l'
     \<and> (\<forall>now. processJobs l' now = Some l')
     \<and> (\<forall>task priority weight.
           \<exists>l'' e. ScheduleWithOptions_enqueue l' task priority weight = (l'', Rejected e)
                  \<and> queue l'' = [])
     \<and> (\<forall>i w opts now.
           snd (Request (datastore l') i w opts now) = (False, 0, Some ErrStoreClosed))"
proof -
  let ?l1 = "l\<lparr>running_l := False, stopCh_closed := True\<rparr>"
  from drain_all [of ?l1] assms(2,3) obtain l2 where
    d: "processRemainingJobs ?l1 = Some l2" and q: "queue l2 = []"
    and j: "\<forall>j. no_index (jobs l2 j) =
            (if j \<in> set (queue l) then (no_index (jobs l j))\<lparr>errorChan := Some ErrStoreClosed\<rparr>
             else no_index (jobs l j))"
    by auto
  from drain_keeps_fields [OF d] have f: "l2\<lparr>jobs := jobs l, queue := queue l\<rparr> = ?l1"
    by simp
  have r: "\<not> running_l l2" and la: "launched l2 = launched l"
    using arg_cong [OF f, of running_l] arg_cong [OF f, of launched] by simp_all
  obtain ds err where dc: "Disconnect (datastore l2) = (ds, err)"
    by (cases "Disconnect (datastore l2)")
  let ?l' = "l2\<lparr>scheduler_done := True, datastore := ds,
               disconnects := Suc (disconnects l2)\<rparr>"
  have st: "Stop l = Some (?l', err)"
    using assms(1) d dc by (simp add: Stop_def scheduler_exit_def)
  have ch: "\<forall>j \<in> set (queue l). errorChan (jobs ?l' j) = Some ErrStoreClosed
                             \<and> resultChan (jobs ?l' j) = resultChan (jobs l j)"
  proof
    fix x assume "x \<in> set (queue l)"
    with j have "no_index (jobs l2 x) = (no_index (jobs l x))\<lparr>errorChan := Some ErrStoreClosed\<rparr>"
      by simp
    then have "no_index (jobs l2 x) = no_index ((jobs l x)\<lparr>errorChan := Some ErrStoreClosed\<rparr>)"
      by (simp add: no_index_def)
    from no_index_eqD(1,2) [OF this]
    show "errorChan (jobs ?l' x) = Some ErrStoreClosed
          \<and> resultChan (jobs ?l' x) = resultChan (jobs l x)"
      by simp
  qed
  have ds: "ds = fst (Disconnect (datastore l2))" using dc by simp
  have rq: "\<forall>i w opts now.
           snd (Request (datastore ?l') i w opts now) = (False, 0, Some ErrStoreClosed)"
    using Request_after_Disconnect [of "datastore l2"] by (simp add: ds)
  have pj: "\<forall>now. processJobs ?l' now = Some ?l'"
    using r by (simp add: processJobs_stopped)
  have en: "\<forall>task priority weight.
           \<exists>l'' e. ScheduleWithOptions_enqueue ?l' task priority weight = (l'', Rejected e)
                  \<and> queue l'' = []"
    using r q by (simp add: enqueue_cases)
  from st ch la q r pj en rq show ?thesis
    by (intro exI [of _ ?l'] exI [of _ err]) simp
qed

lemma Stop_stopped: "\<not> running_l l \<Longrightarrow> Stop l = Some (l, None)"
  by (simp add: Stop_def)

lemma repeat_Stop_stopped: "\<not> running_l l \<Longrightarrow> repeat_Stop n l = Some (l, replicate n None)"
  by (induction n) (simp_all add: Stop_stopped)

text \<open>
  C9. Let \<^verbatim>\<open>Stop\<close> be called on a running limiter whose queue holds each job once, with
  an empty error channel. That first \<^verbatim>\<open>Stop\<close> returns; it has cleared the flag, closed
  the stop channel, let the scheduler finish and called \<^verbatim>\<open>Disconnect\<close> on the store
  once, and it returns what \<^verbatim>\<open>Disconnect\<close> returns. Every later \<^verbatim>\<open>Stop\<close>, any number
  of them, returns nil and leaves the limiter as it is: the channel is not closed again and
  \<^verbatim>\<open>Disconnect\<close> is not called again.
\<close>

theorem Stop_idempotent:
  assumes "running_l l" "distinct (queue l)"
    and "\<forall>j \<in> set (queue l). errorChan (jobs l j) = None"
  shows "\<exists>l' err. Stop l = Some (l', err)
     \<and> \<not> running_l l' \<and> stopCh_closed l' \<and> scheduler_done l'
     \<and> disconnects l' = Suc (disconnects l)
     \<and> (datastore l', err) = Disconnect (datastore l)
     \<and> (\<forall>n. repeat_Stop n l' = Some (l', replicate n None))"
proof -
  let ?l1 = "l\<lparr>running_l := False, stopCh_closed := True\<rparr>"
  from drain_all [of ?l1] assms(2,3) obtain l2 where
    d: "processRemainingJobs ?l1 = Some l2"
    by auto
  obtain ds err where dc: "Disconnect (datastore l2) = (ds, err)"
    by (cases "Disconnect (datastore l2)")
  let ?l' = "l2\<lparr>scheduler_done := True, datastore := ds,
               disconnects := Suc (disconnects l2)\<rparr>"
  have st: "Stop l = Some (?l', err)"
    using assms(1) d dc by (simp add: Stop_def scheduler_exit_def)
  from drain_keeps_fields [OF d] have f: "l2\<lparr>jobs := jobs l, queue := queue l\<rparr> = ?l1"
    by simp
  have k: "\<not> running_l l2" "stopCh_closed l2" "disconnects l2 = disconnects l"
    "datastore l2 = datastore l"
    using arg_cong [OF f, of running_l] arg_cong [OF f, of stopCh_closed]
      arg_cong [OF f, of disconnects] arg_cong [OF f, of datastore]
    by simp_all
  have r: "\<forall>n. repeat_Stop n ?l' = Some (?l', replicate n None)"
    using k(1) by (simp add: repeat_Stop_stopped)
  from st k dc r show ?thesis
    by (intro exI [of _ ?l'] exI [of _ err]) simp
qed

theorem ScheduleWithOptions_contract_witness:
  "running_l example_limiter
   \<and> snd (ScheduleWithOptions_enqueue example_limiter (AnyInt 7, None) 5 1) = Enqueued 0
   \<and> mset (queue (fst (ScheduleWithOptions_enqueue example_limiter (AnyInt 7, None) 5 1)))
       = {#0#}
   \<and> ScheduleWithOptions_wait True example_queued 0 = None"
  using ScheduleWithOptions_contract
    [where l = example_limiter and task = "(AnyInt 7, None)" and priority = 5 and weight = 1
       and pick = True and ?l2.0 = example_queued and job = 0]
  by (simp add: example_limiter_def example_queued_def split: prod.splits)

theorem Stop_drains_queue_witness:
  "running_l example_queued \<and> distinct (queue example_queued)
   \<and> errorChan (jobs example_queued 0) = None \<and> errorChan (jobs example_queued 1) = None
   \<and> (\<exists>l' err. Stop example_queued = Some (l', err) \<and> queue l' = []
         \<and> errorChan (jobs l' 0) = Some ErrStoreClosed
         \<and> errorChan (jobs l' 1) = Some ErrStoreClosed
         \<and> launched l' = [])"
proof -
  have h: "running_l example_queued" "distinct (queue example_queued)"
    "\<forall>j \<in> set (queue example_queued). errorChan (jobs example_queued j) = None"
    by (simp_all add: example_queued_def example_limiter_def)
  from Stop_drains_queue [OF h] obtain l' err where
    "Stop example_queued = Some (l', err)" "queue l' = []"
    "\<forall>j \<in> set (queue example_queued). errorChan (jobs l' j) = Some ErrStoreClosed
        \<and> resultChan (jobs l' j) = resultChan (jobs example_queued j)"
    "launched l' = launched example_queued"
    by blast
  then have "Stop example_queued = Some (l', err) \<and> queue l' = []
         \<and> errorChan (jobs l' 0) = Some ErrStoreClosed
         \<and> errorChan (jobs l' 1) = Some ErrStoreClosed
         \<and> launched l' = []"
    by (simp add: example_queued_def example_limiter_def)
  then have "\<exists>l' err. Stop example_queued = Some (l', err) \<and> queue l' = []
         \<and> errorChan (jobs l' 0) = Some ErrStoreClosed
         \<and> errorChan (jobs l' 1) = Some ErrStoreClosed
         \<and> launched l' = []"
    by blast
  with h show ?thesis by (simp add: example_queued_def example_limiter_def)
qed

theorem Stop_idempotent_witness:
  "running_l example_queued \<and> distinct (queue example_queued)
   \<and> errorChan (jobs example_queued 0) = None \<and> errorChan (jobs example_queued 1) = None
   \<and> (\<exists>l' err. Stop example_queued = Some (l', err)
         \<and> \<not> running_l l' \<and> disconnects l' = 1
         \<and> repeat_Stop 2 l' = Some (l', [None, None]))"
proof -
  have h: "running_l example_queued" "distinct (queue example_queued)"
    "\<forall>j \<in> set (queue example_queued). errorChan (jobs example_queued j) = None"
    by (simp_all add: example_queued_def example_limiter_def)
  from Stop_idempotent [OF h] obtain l' err where
    s: "Stop example_queued = Some (l', err)" "\<not> running_l l'"
    "disconnects l' = Suc (disconnects example_queued)"
    and r: "\<forall>n. repeat_Stop n l' = Some (l', replicate n None)"
    by blast
  from r have "repeat_Stop 2 l' = Some (l', replicate 2 None)" by blast
  with s have "Stop example_queued = Some (l', err)
         \<and> \<not> running_l l' \<and> disconnects l' = 1
         \<and> repeat_Stop 2 l' = Some (l', [None, None])"
    by (simp add: example_queued_def example_limiter_def numeral_2_eq_2)
  then have "\<exists>l' err. Stop example_queued = Some (l', err)
         \<and> \<not> running_l l' \<and> disconnects l' = 1
         \<and> repeat_Stop 2 l' = Some (l', [None, None])"
    by blast
  with h show ?thesis by (simp add: example_queued_def example_limiter_def)
qed

lemma queue_ready_NewLimiter:
  "NewLimiter opts0 dso = Inr l \<Longrightarrow> queue_ready l \<and> running_l l"
  by (auto simp: NewLimiter_def start_def queue_ready_def NewPriorityQueue_def Let_def
      split: if_splits)

lemma queue_ready_enqueue:
  assumes "queue_ready l"
  shows "queue_ready (fst (ScheduleWithOptions_enqueue l task priority weight))"
proof -
  let ?x = "next_job l"
  let ?m = "(jobs l)(?x := \<lparr>Task = task, Priority = priority, Weight = weight,
                    resultChan = None, errorChan = None, index = 0\<rparr>)"
  from assms have fresh: "?x \<notin> set (queue l)" by (auto simp: queue_ready_def)
  from keeps_heap_Push [of "(?m, queue l)" ?x]
  have ms: "mset (snd (heap_Push (?m, queue l) ?x)) = mset (?x # queue l)"
    and ni: "\<forall>r. no_index (fst (heap_Push (?m, queue l) ?x) r) = no_index (?m r)"
    by simp_all
  from mset_eq_imp_distinct_iff [OF ms] mset_eq_setD [OF ms] assms fresh
  have d: "distinct (snd (heap_Push (?m, queue l) ?x))"
    and st: "set (snd (heap_Push (?m, queue l) ?x)) = insert ?x (set (queue l))"
    by (auto simp: queue_ready_def)
  have ec: "\<And>r. errorChan (fst (heap_Push (?m, queue l) ?x) r) = errorChan (?m r)"
    using ni no_index_eqD(1) by blast
  show ?thesis
    using assms d st ec fresh
    by (auto simp: enqueue_cases queue_ready_def)
qed

lemma queue_ready_processJobs:
  assumes "queue_ready l" and "processJobs l now = Some l'"
  shows "queue_ready l'"
proof (cases "IsEmpty (jobs l, queue l) \<or> \<not> running_l l")
  case True
  with assms show ?thesis by (simp add: processJobs_def)
next
  case False
  then have ne: "queue l \<noteq> []" by (auto simp: IsEmpty_def Len_def)
  obtain r m q where p: "PopJob (jobs l, queue l) = (r, (m, q))"
    by (metis prod_cases3)
  from PopJob_facts [OF p] ne obtain x where x: "r = Some x"
    and ms: "mset q + {#x#} = mset (queue l)"
    and ni: "\<forall>r. no_index (m r) = no_index (jobs l r)"
    by auto
  from ms have ms': "mset (q @ [x]) = mset (queue l)" by simp
  from mset_eq_imp_distinct_iff [OF ms'] assms(1) have d: "distinct q" "x \<notin> set q"
    by (auto simp: queue_ready_def)
  from mset_eq_setD [OF ms'] have st: "set (queue l) = insert x (set q)" by auto
  have ec: "\<And>j. errorChan (m j) = errorChan (jobs l j)"
    using ni no_index_eqD(1) by blast
  let ?l1 = "l\<lparr>jobs := m, queue := q\<rparr>"
  have r1: "queue_ready ?l1" "x < next_job l" "errorChan (m x) = None"
    using assms(1) d st ec by (auto simp: queue_ready_def)
  obtain ds canRun waitTime err where
    rq: "Request (datastore ?l1) (ID (opts_l ?l1)) (Weight (jobs ?l1 x)) (opts_l ?l1) now
           = (ds, (canRun, waitTime, err))"
    by (metis prod_cases4)
  let ?l2 = "?l1\<lparr>datastore := ds\<rparr>"
  show ?thesis
  proof (cases err)
    case (Some e)
    with assms(2) False p x rq
    have "send_errorChan ?l2 x (Wrapped ''datastore error'' e) = Some l'"
      by (simp add: processJobs_def)
    with r1 d show ?thesis
      by (auto simp: send_errorChan_def queue_ready_def split: option.splits)
  next
    case None
    show ?thesis
    proof (cases canRun)
      case True
      with assms(2) False p x rq None have "l' = ?l2\<lparr>launched := launched ?l2 @ [x]\<rparr>"
        by (simp add: processJobs_def)
      with r1 show ?thesis by (simp add: queue_ready_def)
    next
      case c: False
      with assms(2) False p x rq None
      have l': "l' = ?l2\<lparr>jobs := fst (heap_Push (m, q) x), queue := snd (heap_Push (m, q) x)\<rparr>"
        by (simp add: processJobs_def PushJob_def split: prod.splits)
      from keeps_heap_Push [of "(m, q)" x]
      have msp: "mset (snd (heap_Push (m, q) x)) = mset (x # q)"
        and nip: "\<forall>r. no_index (fst (heap_Push (m, q) x) r) = no_index (m r)"
        by simp_all
      from mset_eq_imp_distinct_iff [OF msp] mset_eq_setD [OF msp] d
      have dp: "distinct (snd (heap_Push (m, q) x))"
        and sp: "set (snd (heap_Push (m, q) x)) = insert x (set q)"
        by auto
      have "\<And>r. errorChan (fst (heap_Push (m, q) x) r) = errorChan (m r)"
        using nip no_index_eqD(1) by blast
      with l' dp sp r1 show ?thesis by (auto simp: queue_ready_def)
    qed
  qed
qed

lemma queue_ready_drainable:
  "queue_ready l \<Longrightarrow>
     distinct (queue l) \<and> (\<forall>j \<in> set (queue l). errorChan (jobs l j) = None)"
  by (simp add: queue_ready_def)

end
